theory Spec2Isabelle
  imports Complex_Main
begin

section \<open>Text\<close>

text \<open>
  The strings of \<^verbatim>\<open>src/src/etl.py\<close> are modelled as lists of characters, and the case and
  whitespace functions of Python are modelled on ASCII text: the cased characters are the
  letters \<^verbatim>\<open>A-Z\<close> and \<^verbatim>\<open>a-z\<close>, every other character is uncased and is left as it is.
  Python floats are modelled by rationals, so arithmetic is exact (no rounding).
\<close>

definition is_upper :: "char \<Rightarrow> bool" where
  "is_upper c = (65 \<le> (of_char c :: nat) \<and> (of_char c :: nat) \<le> 90)"

definition is_lower :: "char \<Rightarrow> bool" where
  "is_lower c = (97 \<le> (of_char c :: nat) \<and> (of_char c :: nat) \<le> 122)"

definition is_cased :: "char \<Rightarrow> bool" where
  "is_cased c = (is_upper c \<or> is_lower c)"

definition lower_char :: "char \<Rightarrow> char" where
  "lower_char c = (if is_upper c then char_of ((of_char c :: nat) + 32) else c)"

definition upper_char :: "char \<Rightarrow> char" where
  "upper_char c = (if is_lower c then char_of ((of_char c :: nat) - 32) else c)"

text \<open>\<^verbatim>\<open>s.lower()\<close>\<close>

definition lower :: "string \<Rightarrow> string" where
  "lower s = map lower_char s"

text \<open>\<^verbatim>\<open>sub in s\<close> for two strings: \<^verbatim>\<open>sub\<close> occurs in \<^verbatim>\<open>s\<close> as a contiguous run.\<close>

fun starts_with :: "string \<Rightarrow> string \<Rightarrow> bool" where
  "starts_with s [] = True"
| "starts_with [] (p # ps) = False"
| "starts_with (c # cs) (p # ps) = (c = p \<and> starts_with cs ps)"

fun str_in :: "string \<Rightarrow> string \<Rightarrow> bool" where
  "str_in sub [] = (sub = [])"
| "str_in sub (c # cs) = (starts_with (c # cs) sub \<or> str_in sub cs)"

section \<open>Responses of the external services\<close>

text \<open>
  What \<^verbatim>\<open>response.json()\<close> returns is a JSON value. An object keeps its members in the
  order of the document; Python's dict keeps the last member of a repeated key.
\<close>

datatype json =
    JNull
  | JBool bool
  | JNum rat
  | JStr string
  | JArr "json list"
  | JObj "(string \<times> json) list"

text \<open>
  \<^verbatim>\<open>v[key]\<close> with a string key: defined on a dict that has the key. On a dict without
  the key it raises KeyError, on any other value TypeError; both are \<open>None\<close> here.
\<close>

fun getitem :: "json \<Rightarrow> string \<Rightarrow> json option" where
  "getitem (JObj kvs) k = map_of (rev kvs) k"
| "getitem _ k = None"

text \<open>
  \<^verbatim>\<open>v.get(key, default)\<close>: defined on a dict only (any other value has no \<^verbatim>\<open>get\<close> and the
  call raises AttributeError, \<open>None\<close> here).
\<close>

fun dict_get :: "json \<Rightarrow> string \<Rightarrow> json \<Rightarrow> json option" where
  "dict_get (JObj kvs) k d = (case map_of (rev kvs) k of None \<Rightarrow> Some d | Some v \<Rightarrow> Some v)"
| "dict_get _ k d = None"

text \<open>Python's truth value of a JSON value, as \<^verbatim>\<open>if not articles\<close> reads it.\<close>

fun truthy :: "json \<Rightarrow> bool" where
  "truthy JNull = False"
| "truthy (JBool b) = b"
| "truthy (JNum r) = (r \<noteq> 0)"
| "truthy (JStr s) = (s \<noteq> [])"
| "truthy (JArr xs) = (xs \<noteq> [])"
| "truthy (JObj kvs) = (kvs \<noteq> [])"

text \<open>
  \<^verbatim>\<open>for article in articles\<close>: a list yields its elements, a string its characters, a dict
  its keys; a number or a boolean is not iterable (TypeError, \<open>None\<close> here).
\<close>

fun iterate :: "json \<Rightarrow> json list option" where
  "iterate (JArr xs) = Some xs"
| "iterate (JStr s) = Some (map (\<lambda>c. JStr [c]) s)"
| "iterate (JObj kvs) = Some (map JStr (remdups (map fst kvs)))"
| "iterate _ = None"

subsection \<open>Weather\<close>

record weather_record =
  country :: string
  weather_condition :: string
  temperature_c :: json
  weather_risk :: rat

text \<open>
  \<^verbatim>\<open>get_weather_for_country\<close> (lines 141-161). The request and \<^verbatim>\<open>response.json()\<close> are the
  parameter \<open>weather_api\<close>: \<open>None\<close> when either of them raises. \<^verbatim>\<open>condition.lower()\<close> exists
  for a string only, so any other value of the \<^verbatim>\<open>text\<close> member raises AttributeError and
  ends in the \<^verbatim>\<open>except\<close> branch, like every other exception of the \<^verbatim>\<open>try\<close> block.
  Python's \<^verbatim>\<open>None\<close> is \<open>JNull\<close>.
\<close>

definition weather_fallback :: "string \<Rightarrow> weather_record" where
  "weather_fallback c =
     \<lparr>country = c, weather_condition = ''Unknown'', temperature_c = JNull, weather_risk = 1/2\<rparr>"

definition weather_risk_of :: "string \<Rightarrow> rat" where
  "weather_risk_of condition =
     (if str_in ''storm'' (lower condition) \<or> str_in ''rain'' (lower condition) then 8/10
      else if str_in ''snow'' (lower condition) then 7/10
      else 2/10)"

definition get_weather_for_country :: "(string \<Rightarrow> json option) \<Rightarrow> string \<Rightarrow> weather_record" where
  "get_weather_for_country weather_api c =
     (case weather_api c of
        None \<Rightarrow> weather_fallback c
      | Some data \<Rightarrow>
          (case getitem data ''current'' of
             None \<Rightarrow> weather_fallback c
           | Some cur \<Rightarrow>
               (case getitem cur ''condition'' of
                  None \<Rightarrow> weather_fallback c
                | Some cond \<Rightarrow>
                    (case getitem cond ''text'' of
                       None \<Rightarrow> weather_fallback c
                     | Some txt \<Rightarrow>
                         (case getitem cur ''temp_c'' of
                            None \<Rightarrow> weather_fallback c
                          | Some temp_c \<Rightarrow>
                              (case txt of
                                 JStr condition \<Rightarrow>
                                   \<lparr>country = c, weather_condition = condition,
                                    temperature_c = temp_c,
                                    weather_risk = weather_risk_of condition\<rparr>
                               | _ \<Rightarrow> weather_fallback c))))))"

subsection \<open>News\<close>

record news_record =
  news_country :: string
  news_sentiment :: rat
  news_risk :: "rat option"

text \<open>
  \<^verbatim>\<open>article["title"] + " " + article.get("description", "")\<close>: both operands of each \<^verbatim>\<open>+\<close>
  have to be strings, anything else raises TypeError (\<open>None\<close> here).
\<close>

definition article_text :: "json \<Rightarrow> string option" where
  "article_text article =
     (case getitem article ''title'' of
        Some (JStr title) \<Rightarrow>
          (case dict_get article ''description'' (JStr '''') of
             Some (JStr description) \<Rightarrow> Some (title @ '' '' @ description)
           | _ \<Rightarrow> None)
      | _ \<Rightarrow> None)"

text \<open>The loop of lines 181-185; it stops at the first article that raises.\<close>

fun sentiments_of :: "(string \<Rightarrow> rat) \<Rightarrow> json list \<Rightarrow> rat list option" where
  "sentiments_of polarity [] = Some []"
| "sentiments_of polarity (article # rest) =
     (case article_text article of
        None \<Rightarrow> None
      | Some text \<Rightarrow>
          (case sentiments_of polarity rest of
             None \<Rightarrow> None
           | Some ps \<Rightarrow> Some (polarity text # ps)))"

definition news_fallback :: "string \<Rightarrow> news_record" where
  "news_fallback c = \<lparr>news_country = c, news_sentiment = 0, news_risk = Some (1/2)\<rparr>"

text \<open>
  \<^verbatim>\<open>get_news_sentiment_for_country\<close> (lines 169-192). \<open>news_api\<close> is the request with
  \<^verbatim>\<open>response.json()\<close>, \<open>polarity\<close> is \<^verbatim>\<open>TextBlob(text).sentiment.polarity\<close>. The record
  returned for an empty article list has no \<^verbatim>\<open>news_risk\<close> key: \<open>news_risk = None\<close>.
\<close>

definition get_news_sentiment_for_country ::
  "(string \<Rightarrow> json option) \<Rightarrow> (string \<Rightarrow> rat) \<Rightarrow> string \<Rightarrow> news_record" where
  "get_news_sentiment_for_country news_api polarity c =
     (case news_api c of
        None \<Rightarrow> news_fallback c
      | Some resp \<Rightarrow>
          (case dict_get resp ''articles'' (JArr []) of
             None \<Rightarrow> news_fallback c
           | Some articles \<Rightarrow>
               if \<not> truthy articles
               then \<lparr>news_country = c, news_sentiment = 0, news_risk = None\<rparr>
               else
                 (case iterate articles of
                    None \<Rightarrow> news_fallback c
                  | Some items \<Rightarrow>
                      (case sentiments_of polarity items of
                         None \<Rightarrow> news_fallback c
                       | Some sentiments \<Rightarrow>
                           let avg_sentiment = sum_list sentiments / of_nat (length sentiments);
                               risk = 1 - ((avg_sentiment + 1) / 2)
                           in \<lparr>news_country = c, news_sentiment = avg_sentiment,
                               news_risk = Some risk\<rparr>))))"

section \<open>Tables\<close>

text \<open>
  A DataFrame is a list of column names and a list of rows; a row holds one cell for each
  column, in the order of the names. A cell is missing (\<^verbatim>\<open>NaN\<close>, \<^verbatim>\<open>None\<close>, \<^verbatim>\<open>NaT\<close>), a number, a
  string or a timestamp (nanoseconds since 1970-01-01). The functions of pandas that the
  source calls are modelled on these cells, series by series; where pandas raises, the
  model returns the error.
\<close>

datatype cell = Missing | Num rat | Str string | Date int

record table =
  columns :: "string list"
  rows :: "cell list list"

datatype error = TypeError | AttributeError | ValueError | KeyError | MergeError

definition wf_table :: "table \<Rightarrow> bool" where
  "wf_table df = (distinct (columns df) \<and> (\<forall>r \<in> set (rows df). length r = length (columns df)))"

fun col_index :: "string list \<Rightarrow> string \<Rightarrow> nat" where
  "col_index [] c = 0"
| "col_index (x # xs) c = (if x = c then 0 else Suc (col_index xs c))"

text \<open>\<^verbatim>\<open>df[col]\<close>, read as the series of the column's cells.\<close>

definition getcol :: "table \<Rightarrow> string \<Rightarrow> cell list" where
  "getcol df c = map (\<lambda>r. r ! col_index (columns df) c) (rows df)"

text \<open>\<^verbatim>\<open>df[col] = series\<close> for a column that exists and a series with one cell per row.\<close>

definition setcol :: "table \<Rightarrow> string \<Rightarrow> cell list \<Rightarrow> table" where
  "setcol df c vs =
     df\<lparr>rows := map (\<lambda>(r, v). r[col_index (columns df) c := v]) (zip (rows df) vs)\<rparr>"

definition is_number :: "cell \<Rightarrow> bool" where
  "is_number v = (case v of Num r \<Rightarrow> True | _ \<Rightarrow> False)"

definition is_str :: "cell \<Rightarrow> bool" where
  "is_str v = (case v of Str s \<Rightarrow> True | _ \<Rightarrow> False)"

definition is_date :: "cell \<Rightarrow> bool" where
  "is_date v = (case v of Date d \<Rightarrow> True | _ \<Rightarrow> False)"

text \<open>A series that pandas can compare and aggregate as numbers: numbers and missing cells.\<close>

definition numeric_series :: "cell list \<Rightarrow> bool" where
  "numeric_series xs = list_all (\<lambda>v. v = Missing \<or> is_number v) xs"

text \<open>The non-missing numbers of a series.\<close>

fun numbers :: "cell list \<Rightarrow> rat list" where
  "numbers [] = []"
| "numbers (Num r # xs) = r # numbers xs"
| "numbers (_ # xs) = numbers xs"

subsection \<open>CategoryMapper\<close>

definition country_mapping :: "(string \<times> string) list" where
  "country_mapping =
     [(''Usa'', ''United States''),
      (''Uk'', ''United Kingdom''),
      (''Uae'', ''United Arab Emirates'')]"

text \<open>\<^verbatim>\<open>series.replace(mapping)\<close>: a cell equal to a key becomes the key's value.\<close>

fun replace_cell :: "(string \<times> string) list \<Rightarrow> cell \<Rightarrow> cell" where
  "replace_cell m (Str s) = (case map_of m s of Some t \<Rightarrow> Str t | None \<Rightarrow> Str s)"
| "replace_cell m v = v"

definition replace :: "(string \<times> string) list \<Rightarrow> cell list \<Rightarrow> cell list" where
  "replace m xs = map (replace_cell m) xs"

text \<open>\<^verbatim>\<open>standardize_countries\<close> (lines 80-90), as a function of the table's value.\<close>

definition standardize_countries :: "table \<Rightarrow> string \<Rightarrow> table" where
  "standardize_countries df column =
     (if column \<in> set (columns df)
      then setcol df column (replace country_mapping (getcol df column))
      else df)"

subsection \<open>RangeValidator\<close>

text \<open>
  \<^verbatim>\<open>series.between(lo, hi)\<close> is \<^verbatim>\<open>(series >= lo) & (series <= hi)\<close>: false on a missing cell;
  comparing a string or a timestamp with a number raises TypeError.
\<close>

fun between_cell :: "rat \<Rightarrow> rat \<Rightarrow> cell \<Rightarrow> bool" where
  "between_cell lo hi (Num r) = (lo \<le> r \<and> r \<le> hi)"
| "between_cell lo hi _ = False"

definition between :: "rat \<Rightarrow> rat \<Rightarrow> cell list \<Rightarrow> error + bool list" where
  "between lo hi xs =
     (if numeric_series xs then Inr (map (between_cell lo hi) xs) else Inl TypeError)"

text \<open>\<^verbatim>\<open>df.loc[sel, column] = v\<close>\<close>

definition loc_set :: "table \<Rightarrow> bool list \<Rightarrow> string \<Rightarrow> cell \<Rightarrow> table" where
  "loc_set df sel c v =
     setcol df c (map (\<lambda>(m, old). if m then v else old) (zip sel (getcol df c)))"

text \<open>
  \<^verbatim>\<open>validate_data\<close> (lines 118-124). \<^verbatim>\<open>valid_range\<close> is \<^verbatim>\<open>None\<close> or a pair; the mask of line
  122 is the one of line 121.
\<close>

definition validate_data :: "table \<Rightarrow> string \<Rightarrow> (rat \<times> rat) option \<Rightarrow> error + table" where
  "validate_data df column valid_range =
     (case valid_range of
        None \<Rightarrow> Inr df
      | Some (lo, hi) \<Rightarrow>
          if column \<in> set (columns df)
          then (case between lo hi (getcol df column) of
                  Inl e \<Rightarrow> Inl e
                | Inr ok \<Rightarrow> Inr (loc_set df (map Not ok) column (Num lo)))
          else Inr df)"

subsection \<open>OutlierCapper\<close>

text \<open>
  \<^verbatim>\<open>series.quantile(q)\<close> with pandas' default linear interpolation over the sorted
  non-missing values: \<^verbatim>\<open>NaN\<close> (\<open>None\<close>) when there is none, TypeError on a series that holds
  a string. A series that holds timestamps is outside the model and is reported as TypeError
  as well.
\<close>

definition interpolate :: "rat list \<Rightarrow> rat \<Rightarrow> rat" where
  "interpolate vs q =
     (let pos = q * (of_nat (length vs) - 1);
          i = nat \<lfloor>pos\<rfloor>;
          frac = pos - of_nat i
      in if Suc i < length vs then vs ! i + frac * (vs ! Suc i - vs ! i) else vs ! i)"

definition quantile :: "rat \<Rightarrow> cell list \<Rightarrow> error + rat option" where
  "quantile q xs =
     (if \<not> numeric_series xs then Inl TypeError
      else if numbers xs = [] then Inr None
      else Inr (Some (interpolate (sort (numbers xs)) q)))"

text \<open>
  \<^verbatim>\<open>series.clip(lower, upper)\<close> with two numbers: a missing cell stays missing. A \<^verbatim>\<open>NaN\<close>
  bound does not clip.
\<close>

fun clip_cell :: "rat \<Rightarrow> rat \<Rightarrow> cell \<Rightarrow> cell" where
  "clip_cell lo hi (Num r) = Num (if r < lo then lo else if hi < r then hi else r)"
| "clip_cell lo hi v = v"

definition clip :: "rat option \<Rightarrow> rat option \<Rightarrow> cell list \<Rightarrow> cell list" where
  "clip lower_bound upper_bound xs =
     (case (lower_bound, upper_bound) of
        (Some lo, Some hi) \<Rightarrow> map (clip_cell lo hi) xs
      | _ \<Rightarrow> xs)"

text \<open>Arithmetic of Python floats where \<open>None\<close> is \<^verbatim>\<open>NaN\<close>.\<close>

definition nan_minus :: "rat option \<Rightarrow> rat option \<Rightarrow> rat option" where
  "nan_minus a b = (case (a, b) of (Some x, Some y) \<Rightarrow> Some (x - y) | _ \<Rightarrow> None)"

definition nan_plus :: "rat option \<Rightarrow> rat option \<Rightarrow> rat option" where
  "nan_plus a b = (case (a, b) of (Some x, Some y) \<Rightarrow> Some (x + y) | _ \<Rightarrow> None)"

definition nan_times :: "rat \<Rightarrow> rat option \<Rightarrow> rat option" where
  "nan_times k a = map_option (\<lambda>x. k * x) a"

text \<open>The bounds of lines 69-73.\<close>

definition outlier_bounds :: "cell list \<Rightarrow> error + (rat option \<times> rat option)" where
  "outlier_bounds xs =
     (case quantile (1/4) xs of
        Inl e \<Rightarrow> Inl e
      | Inr Q1 \<Rightarrow>
          (case quantile (3/4) xs of
             Inl e \<Rightarrow> Inl e
           | Inr Q3 \<Rightarrow>
               let IQR = nan_minus Q3 Q1;
                   lower_bound = nan_minus Q1 (nan_times (3/2) IQR);
                   upper_bound = nan_plus Q3 (nan_times (3/2) IQR)
               in Inr (lower_bound, upper_bound)))"

text \<open>\<^verbatim>\<open>handle_outliers\<close> (lines 66-78), as a function of the table's value.\<close>

definition handle_outliers :: "table \<Rightarrow> string \<Rightarrow> error + table" where
  "handle_outliers df column =
     (if column \<in> set (columns df)
      then (case outlier_bounds (getcol df column) of
              Inl e \<Rightarrow> Inl e
            | Inr (lower_bound, upper_bound) \<Rightarrow>
                Inr (setcol df column (clip lower_bound upper_bound (getcol df column))))
      else Inr df)"

subsection \<open>Cleaner\<close>

text \<open>
  \<^verbatim>\<open>df.drop_duplicates(inplace=True)\<close>: a row equal to an earlier row in every column is
  removed, the first occurrence stays (two missing cells count as equal).
\<close>

fun keep_first :: "'a list \<Rightarrow> 'a list \<Rightarrow> 'a list" where
  "keep_first seen [] = []"
| "keep_first seen (r # rs) =
     (if r \<in> set seen then keep_first seen rs else r # keep_first (r # seen) rs)"

definition drop_duplicates :: "table \<Rightarrow> table" where
  "drop_duplicates df = df\<lparr>rows := keep_first [] (rows df)\<rparr>"

text \<open>
  \<^verbatim>\<open>series.median()\<close>: the median of the non-missing numbers, \<^verbatim>\<open>NaN\<close> when there is none,
  TypeError on a series that holds a string. A series that holds timestamps is outside the
  model (a column read from a CSV file holds none) and is reported as TypeError as well.
\<close>

definition median_sorted :: "rat list \<Rightarrow> rat" where
  "median_sorted vs =
     (let n = length vs
      in if odd n then vs ! (n div 2) else (vs ! (n div 2 - 1) + vs ! (n div 2)) / 2)"

definition median :: "cell list \<Rightarrow> error + cell" where
  "median xs =
     (if \<not> numeric_series xs then Inl TypeError
      else if numbers xs = [] then Inr Missing
      else Inr (Num (median_sorted (sort (numbers xs)))))"

text \<open>\<^verbatim>\<open>series.fillna(value)\<close>; filling with \<^verbatim>\<open>NaN\<close> changes nothing.\<close>

definition fillna :: "cell \<Rightarrow> cell list \<Rightarrow> cell list" where
  "fillna v xs = map (\<lambda>x. if x = Missing then v else x) xs"

text \<open>
  \<^verbatim>\<open>pd.to_datetime(series, errors="coerce")\<close>: a timestamp stays, a missing cell is \<^verbatim>\<open>NaT\<close>,
  and any other cell is parsed by pandas; \<open>parse\<close> is that parser (it sees the whole series,
  since pandas infers the format from it), \<open>None\<close> when the cell does not parse.
\<close>

definition to_datetime :: "(cell list \<Rightarrow> cell \<Rightarrow> int option) \<Rightarrow> cell list \<Rightarrow> cell list" where
  "to_datetime parse xs =
     map (\<lambda>v. case v of
                Missing \<Rightarrow> Missing
              | Date d \<Rightarrow> Date d
              | _ \<Rightarrow> (case parse xs v of Some d \<Rightarrow> Date d | None \<Rightarrow> Missing)) xs"

text \<open>
  The \<^verbatim>\<open>.str\<close> accessor exists on a series whose non-missing cells are inferred as strings
  or as mixed objects; on numbers only or timestamps only it raises AttributeError. Its
  methods give \<^verbatim>\<open>NaN\<close> on every cell that is not a string.
\<close>

definition str_accessor_ok :: "cell list \<Rightarrow> bool" where
  "str_accessor_ok xs =
     (let ys = filter (\<lambda>v. v \<noteq> Missing) xs
      in ys = [] \<or> list_ex is_str ys \<or> (list_ex is_number ys \<and> list_ex is_date ys))"

definition is_space :: "char \<Rightarrow> bool" where
  "is_space c = ((9 \<le> (of_char c :: nat) \<and> (of_char c :: nat) \<le> 13) \<or>
                 (28 \<le> (of_char c :: nat) \<and> (of_char c :: nat) \<le> 32))"

text \<open>\<^verbatim>\<open>s.strip()\<close>\<close>

definition strip :: "string \<Rightarrow> string" where
  "strip s = rev (dropWhile is_space (rev (dropWhile is_space s)))"

text \<open>
  \<^verbatim>\<open>s.title()\<close>: a cased character is written in upper case when the character before it
  is not cased, in lower case otherwise.
\<close>

fun title_from :: "bool \<Rightarrow> string \<Rightarrow> string" where
  "title_from previous_is_cased [] = []"
| "title_from previous_is_cased (c # cs) =
     (if previous_is_cased then lower_char c else upper_char c) # title_from (is_cased c) cs"

definition title :: "string \<Rightarrow> string" where
  "title s = title_from False s"

fun strip_cell :: "cell \<Rightarrow> cell" where
  "strip_cell (Str s) = Str (strip s)"
| "strip_cell _ = Missing"

fun title_cell :: "cell \<Rightarrow> cell" where
  "title_cell (Str s) = Str (title s)"
| "title_cell _ = Missing"

definition str_strip :: "cell list \<Rightarrow> error + cell list" where
  "str_strip xs = (if str_accessor_ok xs then Inr (map strip_cell xs) else Inl AttributeError)"

definition str_title :: "cell list \<Rightarrow> error + cell list" where
  "str_title xs = (if str_accessor_ok xs then Inr (map title_cell xs) else Inl AttributeError)"

text \<open>
  \<^verbatim>\<open>pd.to_numeric(series, errors="coerce")\<close>: a number stays, a string is parsed by pandas
  (\<open>parse\<close>, \<open>None\<close> when it is not a number) and becomes \<^verbatim>\<open>NaN\<close> when it does not parse, a
  timestamp becomes its nanoseconds.
\<close>

fun to_numeric_cell :: "(string \<Rightarrow> rat option) \<Rightarrow> cell \<Rightarrow> cell" where
  "to_numeric_cell parse Missing = Missing"
| "to_numeric_cell parse (Num r) = Num r"
| "to_numeric_cell parse (Str s) = (case parse s of Some r \<Rightarrow> Num r | None \<Rightarrow> Missing)"
| "to_numeric_cell parse (Date d) = Num (of_int d)"

definition to_numeric :: "(string \<Rightarrow> rat option) \<Rightarrow> cell list \<Rightarrow> cell list" where
  "to_numeric parse xs = map (to_numeric_cell parse) xs"

text \<open>
  \<^verbatim>\<open>series.astype(int)\<close> on a series of numbers drops the fractional part (rounds toward
  zero); on a series with a missing cell it raises ValueError. The numbers of the model are
  finite and unbounded; pandas' \<^verbatim>\<open>int\<close> has 64 bits.
\<close>

definition truncate :: "rat \<Rightarrow> int" where
  "truncate r = (if 0 \<le> r then \<lfloor>r\<rfloor> else \<lceil>r\<rceil>)"

fun astype_int_cell :: "cell \<Rightarrow> cell" where
  "astype_int_cell (Num r) = Num (of_int (truncate r))"
| "astype_int_cell v = v"

definition astype_int :: "cell list \<Rightarrow> error + cell list" where
  "astype_int xs = (if list_all is_number xs then Inr (map astype_int_cell xs) else Inl ValueError)"

text \<open>
  Each loop of \<^verbatim>\<open>clean_data\<close> has the shape
  \<^verbatim>\<open>for col in cols: if col in df.columns: df[col] = f(df[col])\<close>.
\<close>

definition apply_series :: "(cell list \<Rightarrow> error + cell list) \<Rightarrow> table \<Rightarrow> string \<Rightarrow> error + table" where
  "apply_series f df col =
     (case f (getcol df col) of Inl e \<Rightarrow> Inl e | Inr ys \<Rightarrow> Inr (setcol df col ys))"

fun for_each_column ::
  "(cell list \<Rightarrow> error + cell list) \<Rightarrow> string list \<Rightarrow> table \<Rightarrow> error + table" where
  "for_each_column f [] df = Inr df"
| "for_each_column f (col # cols) df =
     (if col \<in> set (columns df)
      then (case apply_series f df col of
              Inl e \<Rightarrow> Inl e
            | Inr df' \<Rightarrow> for_each_column f cols df')
      else for_each_column f cols df)"

text \<open>The right-hand sides of lines 32-33, 39, 45-46, 53 and 60.\<close>

definition impute_numeric :: "cell list \<Rightarrow> error + cell list" where
  "impute_numeric xs = (case median xs of Inl e \<Rightarrow> Inl e | Inr m \<Rightarrow> Inr (fillna m xs))"

definition impute_categorical :: "cell list \<Rightarrow> error + cell list" where
  "impute_categorical xs = Inr (fillna (Str ''Unknown'') xs)"

definition coerce_temporal ::
  "(cell list \<Rightarrow> cell \<Rightarrow> int option) \<Rightarrow> cell list \<Rightarrow> error + cell list" where
  "coerce_temporal parse xs = Inr (fillna (Date 0) (to_datetime parse xs))"

definition normalize_categorical :: "cell list \<Rightarrow> error + cell list" where
  "normalize_categorical xs =
     (case str_strip xs of Inl e \<Rightarrow> Inl e | Inr ys \<Rightarrow> str_title ys)"

definition coerce_numeric :: "(string \<Rightarrow> rat option) \<Rightarrow> cell list \<Rightarrow> error + cell list" where
  "coerce_numeric parse xs = astype_int (fillna (Num 0) (to_numeric parse xs))"

text \<open>An argument that is \<^verbatim>\<open>None\<close> or an empty list skips its loop.\<close>

definition column_list :: "string list option \<Rightarrow> string list" where
  "column_list cols = (case cols of None \<Rightarrow> [] | Some cs \<Rightarrow> cs)"

text \<open>
  \<^verbatim>\<open>clean_data\<close> (lines 19-64), as a function of the table's value. \<open>parse_datetime\<close> and
  \<open>parse_number\<close> are the parsers of pandas.
\<close>

definition clean_data ::
  "(cell list \<Rightarrow> cell \<Rightarrow> int option) \<Rightarrow> (string \<Rightarrow> rat option) \<Rightarrow>
   table \<Rightarrow> string list option \<Rightarrow> string list option \<Rightarrow> string list option \<Rightarrow> error + table" where
  "clean_data parse_datetime parse_number df numeric_columns categorical_columns date_columns =
     (case for_each_column impute_numeric (column_list numeric_columns) (drop_duplicates df) of
        Inl e \<Rightarrow> Inl e
      | Inr df2 \<Rightarrow>
     (case for_each_column impute_categorical (column_list categorical_columns) df2 of
        Inl e \<Rightarrow> Inl e
      | Inr df3 \<Rightarrow>
     (case for_each_column (coerce_temporal parse_datetime) (column_list date_columns) df3 of
        Inl e \<Rightarrow> Inl e
      | Inr df4 \<Rightarrow>
     (case for_each_column normalize_categorical (column_list categorical_columns) df4 of
        Inl e \<Rightarrow> Inl e
      | Inr df5 \<Rightarrow>
          for_each_column (coerce_numeric parse_number) (column_list numeric_columns) df5))))"

text \<open>A string without leading or trailing whitespace.\<close>

definition trimmed :: "string \<Rightarrow> bool" where
  "trimmed s = (s = [] \<or> (\<not> is_space (hd s) \<and> \<not> is_space (last s)))"

subsection \<open>Predicates on series functions and cells\<close>

text \<open>A series function keeps the length, and is settled on its own results.\<close>

definition keeps_length :: "(cell list \<Rightarrow> error + cell list) \<Rightarrow> bool" where
  "keeps_length f = (\<forall>xs ys. f xs = Inr ys \<longrightarrow> length ys = length xs)"

definition settles :: "(cell list \<Rightarrow> error + cell list) \<Rightarrow> bool" where
  "settles f = (\<forall>xs ys. f xs = Inr ys \<longrightarrow> f ys = Inr ys)"

text \<open>What one loop does to the series of column \<open>c\<close>.\<close>

definition stage ::
  "(cell list \<Rightarrow> error + cell list) \<Rightarrow> string list \<Rightarrow> string \<Rightarrow> cell list \<Rightarrow> cell list \<Rightarrow> bool" where
  "stage f cols c xs ys = (if c \<in> set cols then f xs = Inr ys else ys = xs)"

definition text_or_missing :: "cell \<Rightarrow> bool" where
  "text_or_missing v = (v = Missing \<or> is_str v)"

text \<open>What \<^verbatim>\<open>.str.strip().str.title()\<close> makes of one cell.\<close>

definition normalize_cell :: "cell \<Rightarrow> cell" where
  "normalize_cell v = title_cell (strip_cell v)"

text \<open>What \<^verbatim>\<open>pd.to_numeric(...).fillna(0).astype(int)\<close> makes of one cell.\<close>

definition coerce_cell :: "(string \<Rightarrow> rat option) \<Rightarrow> cell \<Rightarrow> cell" where
  "coerce_cell parse v =
     (case v of
        Missing \<Rightarrow> Num 0
      | Num r \<Rightarrow> Num (of_int (truncate r))
      | Str s \<Rightarrow> (case parse s of Some r \<Rightarrow> Num (of_int (truncate r)) | None \<Rightarrow> Num 0)
      | Date d \<Rightarrow> Num (of_int d))"

definition is_integer_cell :: "cell \<Rightarrow> bool" where
  "is_integer_cell v = (case v of Num r \<Rightarrow> r = of_int \<lfloor>r\<rfloor> | _ \<Rightarrow> False)"

text \<open>The tables on which the Cleaner does not raise: see \<open>clean_data_total\<close>.\<close>

definition well_typed :: "table \<Rightarrow> string list \<Rightarrow> string list \<Rightarrow> string list \<Rightarrow> bool" where
  "well_typed df ncs ccs dcs =
     (set ncs \<inter> set ccs = {} \<and> set ncs \<inter> set dcs = {} \<and> set ccs \<inter> set dcs = {} \<and>
      (\<forall>c \<in> set ncs. c \<in> set (columns df) \<longrightarrow> numeric_series (getcol df c)) \<and>
      (\<forall>c \<in> set ccs. c \<in> set (columns df) \<longrightarrow> list_all text_or_missing (getcol df c)))"


subsection \<open>Enricher\<close>

text \<open>
  \<^verbatim>\<open>left.merge(right, left_on=a, right_on=b, how="left")\<close>. A column name that both tables
  have gets the suffix \<^verbatim>\<open>_x\<close> on the left and \<^verbatim>\<open>_y\<close> on the right; pandas raises MergeError
  when the suffixes make two columns of one side equal, and KeyError when a key column is
  absent. Every row of the left table is kept, in order: it is joined to each row of the
  right table whose key cell equals its own (two missing cells are equal), or to missing
  cells when there is no such row.
\<close>

definition rename_overlap :: "string \<Rightarrow> string list \<Rightarrow> string list \<Rightarrow> string list" where
  "rename_overlap suffix other cols = map (\<lambda>n. if n \<in> set other then n @ suffix else n) cols"

definition join_row :: "nat \<Rightarrow> nat \<Rightarrow> cell list list \<Rightarrow> nat \<Rightarrow> cell list \<Rightarrow> cell list list" where
  "join_row i j right_rows width l =
     (case filter (\<lambda>r. r ! j = l ! i) right_rows of
        [] \<Rightarrow> [l @ replicate width Missing]
      | ms \<Rightarrow> map (\<lambda>r. l @ r) ms)"

definition merge_left :: "table \<Rightarrow> table \<Rightarrow> string \<Rightarrow> string \<Rightarrow> error + table" where
  "merge_left left right left_on right_on =
     (if left_on \<notin> set (columns left) \<or> right_on \<notin> set (columns right) then Inl KeyError
      else
        let lnames = rename_overlap ''_x'' (columns right) (columns left);
            rnames = rename_overlap ''_y'' (columns left) (columns right)
        in if \<not> distinct lnames \<or> \<not> distinct rnames then Inl MergeError
           else Inr \<lparr>columns = lnames @ rnames,
                     rows = concat (map (join_row (col_index (columns left) left_on)
                                                  (col_index (columns right) right_on)
                                                  (rows right) (length (columns right)))
                                        (rows left))\<rparr>)"

text \<open>\<^verbatim>\<open>df.drop(columns=names, errors="ignore")\<close>\<close>

definition drop_cells :: "string list \<Rightarrow> string list \<Rightarrow> cell list \<Rightarrow> cell list" where
  "drop_cells names cols r = map snd (filter (\<lambda>(n, v). n \<notin> set names) (zip cols r))"

definition drop_columns :: "table \<Rightarrow> string list \<Rightarrow> table" where
  "drop_columns df names =
     \<lparr>columns = filter (\<lambda>n. n \<notin> set names) (columns df),
      rows = map (drop_cells names (columns df)) (rows df)\<rparr>"

text \<open>The merge of lines 214-218, as a function of the three tables' values.\<close>

definition enrich :: "table \<Rightarrow> table \<Rightarrow> table \<Rightarrow> error + table" where
  "enrich logistics_df weather_df news_df =
     (case merge_left logistics_df weather_df ''origin_country'' ''country'' of
        Inl e \<Rightarrow> Inl e
      | Inr merged \<Rightarrow>
          (case merge_left merged news_df ''origin_country'' ''country'' of
             Inl e \<Rightarrow> Inl e
           | Inr merged \<Rightarrow> Inr (drop_columns merged [''country_x'', ''country_y''])))"




section \<open>Table objects\<close>

text \<open>
  Python passes a DataFrame by reference. The objects alive are a list of tables and a
  reference is an index into it. \<^verbatim>\<open>df.copy()\<close> and \<^verbatim>\<open>merge\<close> make a new object;
  \<^verbatim>\<open>df[col] = ...\<close>, \<^verbatim>\<open>df.loc[...] = ...\<close> and the \<^verbatim>\<open>inplace=True\<close> methods write into the
  object they are called on. A call that raises returns the error only.
\<close>

type_synonym heap = "table list"

definition copy :: "heap \<Rightarrow> nat \<Rightarrow> nat \<times> heap" where
  "copy h df = (length h, h @ [h ! df])"

definition setitem :: "heap \<Rightarrow> nat \<Rightarrow> string \<Rightarrow> cell list \<Rightarrow> heap" where
  "setitem h df col vs = h[df := setcol (h ! df) col vs]"

fun for_each_column_obj ::
  "(cell list \<Rightarrow> error + cell list) \<Rightarrow> string list \<Rightarrow> heap \<Rightarrow> nat \<Rightarrow> error + heap" where
  "for_each_column_obj f [] h df = Inr h"
| "for_each_column_obj f (col # cols) h df =
     (if col \<in> set (columns (h ! df))
      then (case f (getcol (h ! df) col) of
              Inl e \<Rightarrow> Inl e
            | Inr ys \<Rightarrow> for_each_column_obj f cols (setitem h df col ys) df)
      else for_each_column_obj f cols h df)"

text \<open>\<^verbatim>\<open>clean_data\<close> (lines 19-64) on a table object: line 21 copies, the rest works on the copy.\<close>

definition clean_data_obj ::
  "(cell list \<Rightarrow> cell \<Rightarrow> int option) \<Rightarrow> (string \<Rightarrow> rat option) \<Rightarrow>
   heap \<Rightarrow> nat \<Rightarrow> string list option \<Rightarrow> string list option \<Rightarrow> string list option \<Rightarrow>
   error + nat \<times> heap" where
  "clean_data_obj parse_datetime parse_number h df0 numeric_columns categorical_columns date_columns =
     (let (df, h1) = copy h df0;
          h2 = h1[df := drop_duplicates (h1 ! df)]
      in case for_each_column_obj impute_numeric (column_list numeric_columns) h2 df of
           Inl e \<Rightarrow> Inl e
         | Inr h3 \<Rightarrow>
        (case for_each_column_obj impute_categorical (column_list categorical_columns) h3 df of
           Inl e \<Rightarrow> Inl e
         | Inr h4 \<Rightarrow>
        (case for_each_column_obj (coerce_temporal parse_datetime) (column_list date_columns) h4 df of
           Inl e \<Rightarrow> Inl e
         | Inr h5 \<Rightarrow>
        (case for_each_column_obj normalize_categorical (column_list categorical_columns) h5 df of
           Inl e \<Rightarrow> Inl e
         | Inr h6 \<Rightarrow>
        (case for_each_column_obj (coerce_numeric parse_number) (column_list numeric_columns) h6 df of
           Inl e \<Rightarrow> Inl e
         | Inr h7 \<Rightarrow> Inr (df, h7))))))"

text \<open>\<^verbatim>\<open>handle_outliers\<close> (lines 66-78) on a table object.\<close>

definition handle_outliers_obj :: "heap \<Rightarrow> nat \<Rightarrow> string \<Rightarrow> error + nat \<times> heap" where
  "handle_outliers_obj h df column =
     (if column \<in> set (columns (h ! df))
      then (case outlier_bounds (getcol (h ! df) column) of
              Inl e \<Rightarrow> Inl e
            | Inr (lower_bound, upper_bound) \<Rightarrow>
                Inr (df, setitem h df column
                           (clip lower_bound upper_bound (getcol (h ! df) column))))
      else Inr (df, h))"

text \<open>\<^verbatim>\<open>standardize_countries\<close> (lines 80-90) on a table object.\<close>

definition standardize_countries_obj :: "heap \<Rightarrow> nat \<Rightarrow> string \<Rightarrow> nat \<times> heap" where
  "standardize_countries_obj h df column =
     (if column \<in> set (columns (h ! df))
      then (df, setitem h df column (replace country_mapping (getcol (h ! df) column)))
      else (df, h))"

text \<open>\<^verbatim>\<open>validate_data\<close> (lines 118-124) on a table object.\<close>

definition validate_data_obj ::
  "heap \<Rightarrow> nat \<Rightarrow> string \<Rightarrow> (rat \<times> rat) option \<Rightarrow> error + nat \<times> heap" where
  "validate_data_obj h df column valid_range =
     (case valid_range of
        None \<Rightarrow> Inr (df, h)
      | Some (lo, hi) \<Rightarrow>
          if column \<in> set (columns (h ! df))
          then (case between lo hi (getcol (h ! df) column) of
                  Inl e \<Rightarrow> Inl e
                | Inr ok \<Rightarrow> Inr (df, h[df := loc_set (h ! df) (map Not ok) column (Num lo)]))
          else Inr (df, h))"

text \<open>Lines 214-218 on table objects: each merge makes a new table, line 218 writes into the last.\<close>

definition merge_obj :: "heap \<Rightarrow> nat \<Rightarrow> nat \<Rightarrow> string \<Rightarrow> string \<Rightarrow> error + nat \<times> heap" where
  "merge_obj h left right left_on right_on =
     (case merge_left (h ! left) (h ! right) left_on right_on of
        Inl e \<Rightarrow> Inl e
      | Inr t \<Rightarrow> Inr (length h, h @ [t]))"

definition enrich_obj :: "heap \<Rightarrow> nat \<Rightarrow> nat \<Rightarrow> nat \<Rightarrow> error + nat \<times> heap" where
  "enrich_obj h logistics_df weather_df news_df =
     (case merge_obj h logistics_df weather_df ''origin_country'' ''country'' of
        Inl e \<Rightarrow> Inl e
      | Inr (merged, h1) \<Rightarrow>
          (case merge_obj h1 merged news_df ''origin_country'' ''country'' of
             Inl e \<Rightarrow> Inl e
           | Inr (merged, h2) \<Rightarrow>
               Inr (merged, h2[merged := drop_columns (h2 ! merged) [''country_x'', ''country_y'']])))"

section \<open>Verified properties\<close>

subsection \<open>Text\<close>

lemma starts_with_iff: "starts_with s p \<longleftrightarrow> (\<exists>q. s = p @ q)"
  by (induction s p rule: starts_with.induct) auto

text \<open>\<open>str_in\<close> is Python's substring test.\<close>

lemma str_in_iff: "str_in sub s \<longleftrightarrow> (\<exists>p q. s = p @ sub @ q)"
proof (induction s)
  case Nil
  then show ?case by auto
next
  case (Cons c cs)
  show ?case
  proof
    assume "str_in sub (c # cs)"
    then consider "starts_with (c # cs) sub" | "str_in sub cs" by auto
    then show "\<exists>p q. c # cs = p @ sub @ q"
    proof cases
      case 1
      then obtain q where "c # cs = sub @ q" by (auto simp: starts_with_iff)
      then have "c # cs = [] @ sub @ q" by simp
      then show ?thesis by blast
    next
      case 2
      then obtain p q where "cs = p @ sub @ q" using Cons.IH by auto
      then have "c # cs = (c # p) @ sub @ q" by simp
      then show ?thesis by blast
    qed
  next
    assume "\<exists>p q. c # cs = p @ sub @ q"
    then obtain p q where e: "c # cs = p @ sub @ q" by blast
    show "str_in sub (c # cs)"
    proof (cases p)
      case Nil
      then have "starts_with (c # cs) sub" using e by (simp add: starts_with_iff)
      then show ?thesis by simp
    next
      case (Cons a p')
      then have "cs = p' @ sub @ q" using e by simp
      then show ?thesis using Cons.IH by auto
    qed
  qed
qed

subsection \<open>The weather source\<close>

text \<open>
  C6. For every country: when the response has a string at \<^verbatim>\<open>current.condition.text\<close> and a
  member \<^verbatim>\<open>current.temp_c\<close>, the record carries that condition text and temperature, and its
  risk is 0.8 if the lower-cased text contains "storm" or "rain", else 0.7 if it contains
  "snow", else 0.2. In every other case (the request or the parse failed, a member is
  missing, the text is not a string) the record is exactly
  \<^verbatim>\<open>{"Unknown", None, 0.5}\<close> for that country.
\<close>

theorem weather_source_contract:
  "(\<forall>data cur cond condition t.
       weather_api c = Some data \<and> getitem data ''current'' = Some cur \<and>
       getitem cur ''condition'' = Some cond \<and> getitem cond ''text'' = Some (JStr condition) \<and>
       getitem cur ''temp_c'' = Some t \<longrightarrow>
       get_weather_for_country weather_api c =
         \<lparr>country = c, weather_condition = condition, temperature_c = t,
          weather_risk =
            (if str_in ''storm'' (lower condition) \<or> str_in ''rain'' (lower condition) then 8/10
             else if str_in ''snow'' (lower condition) then 7/10 else 2/10)\<rparr>) \<and>
   ((\<nexists>data cur cond condition t.
       weather_api c = Some data \<and> getitem data ''current'' = Some cur \<and>
       getitem cur ''condition'' = Some cond \<and> getitem cond ''text'' = Some (JStr condition) \<and>
       getitem cur ''temp_c'' = Some t) \<longrightarrow>
       get_weather_for_country weather_api c =
         \<lparr>country = c, weather_condition = ''Unknown'', temperature_c = JNull,
          weather_risk = 1/2\<rparr>)"
  by (auto simp: get_weather_for_country_def weather_fallback_def weather_risk_of_def
           split: option.splits json.splits)

theorem weather_source_contract_witness:
  "get_weather_for_country
     (\<lambda>c. if c = ''France''
          then Some (JObj [(''current'',
                 JObj [(''condition'', JObj [(''text'', JStr ''Heavy Rain'')]),
                       (''temp_c'', JNum 12)])])
          else None) ''France'' =
     \<lparr>country = ''France'', weather_condition = ''Heavy Rain'', temperature_c = JNum 12,
      weather_risk = 8/10\<rparr> \<and>
   get_weather_for_country
     (\<lambda>c. if c = ''France''
          then Some (JObj [(''current'',
                 JObj [(''condition'', JObj [(''text'', JStr ''Heavy Rain'')]),
                       (''temp_c'', JNum 12)])])
          else None) ''Ruritania'' =
     \<lparr>country = ''Ruritania'', weather_condition = ''Unknown'', temperature_c = JNull,
      weather_risk = 1/2\<rparr>"
proof -
  define cur where "cur = JObj [(''condition'', JObj [(''text'', JStr ''Heavy Rain'')]),
                       (''temp_c'', JNum 12)]"
  define api where "api = (\<lambda>c. if c = ''France'' then Some (JObj [(''current'', cur)]) else None)"
  have h: "api ''France'' = Some (JObj [(''current'', cur)]) \<and>
           getitem (JObj [(''current'', cur)]) ''current'' = Some cur \<and>
           getitem cur ''condition'' = Some (JObj [(''text'', JStr ''Heavy Rain'')]) \<and>
           getitem (JObj [(''text'', JStr ''Heavy Rain'')]) ''text'' = Some (JStr ''Heavy Rain'') \<and>
           getitem cur ''temp_c'' = Some (JNum 12)"
    by (simp add: api_def cur_def)
  have r: "str_in ''rain'' (lower ''Heavy Rain'')" by code_simp
  have a: "get_weather_for_country api ''France'' =
     \<lparr>country = ''France'', weather_condition = ''Heavy Rain'', temperature_c = JNum 12,
      weather_risk = 8/10\<rparr>"
    using weather_source_contract[of api "''France''"] h r by (simp del: getitem.simps)
  have n: "\<nexists>data cur cond condition t.
       api ''Ruritania'' = Some data \<and> getitem data ''current'' = Some cur \<and>
       getitem cur ''condition'' = Some cond \<and> getitem cond ''text'' = Some (JStr condition) \<and>
       getitem cur ''temp_c'' = Some t"
    by (simp add: api_def)
  have b: "get_weather_for_country api ''Ruritania'' =
     \<lparr>country = ''Ruritania'', weather_condition = ''Unknown'', temperature_c = JNull,
      weather_risk = 1/2\<rparr>"
    using weather_source_contract[of api "''Ruritania''"] n by blast
  show ?thesis using a b unfolding api_def cur_def by simp
qed

subsection \<open>The news source\<close>

lemma sentiments_of_texts:
  "map article_text arts = map Some texts \<Longrightarrow>
   sentiments_of polarity arts = Some (map polarity texts)"
  by (induction arts arbitrary: texts) auto

lemma sum_list_between:
  fixes ps :: "rat list"
  shows "\<forall>p\<in>set ps. lo \<le> p \<and> p \<le> hi \<Longrightarrow>
    of_nat (length ps) * lo \<le> sum_list ps \<and> sum_list ps \<le> of_nat (length ps) * hi"
  by (induction ps) (auto simp: algebra_simps)

lemma avg_bounds:
  fixes ps :: "rat list"
  assumes "ps \<noteq> []" "\<forall>p\<in>set ps. lo \<le> p \<and> p \<le> hi"
  shows "lo \<le> sum_list ps / of_nat (length ps) \<and> sum_list ps / of_nat (length ps) \<le> hi"
proof -
  have n: "0 < (of_nat (length ps) :: rat)" using assms(1) by simp
  show ?thesis using n sum_list_between[OF assms(2)] by (simp add: field_simps)
qed

lemma sentiments_of_Some:
  "sentiments_of polarity arts = Some ps \<Longrightarrow>
   \<exists>texts. map article_text arts = map Some texts \<and> ps = map polarity texts"
proof (induction arts arbitrary: ps)
  case Nil
  then show ?case by simp
next
  case (Cons a arts)
  then obtain t ps' where t: "article_text a = Some t"
    and r: "sentiments_of polarity arts = Some ps'" and ps: "ps = polarity t # ps'"
    by (auto split: option.splits)
  from Cons.IH [OF r] obtain texts where
    "map article_text arts = map Some texts" "ps' = map polarity texts" by blast
  hence "map article_text (a # arts) = map Some (t # texts) \<and> ps = map polarity (t # texts)"
    using t ps by simp
  thus ?case by blast
qed

lemma sentiments_of_strings:
  "items \<noteq> [] \<Longrightarrow> \<forall>x \<in> set items. \<exists>s. x = JStr s \<Longrightarrow> sentiments_of polarity items = None"
  by (cases items) (auto simp: article_text_def)

text \<open>
  C7. For every country: when the response holds a non-empty list of articles whose texts
  can be read, the sentiment is the average of the articles' polarities and the risk is
  \<open>1 - (avg + 1) / 2\<close>, so that average -1 gives risk 1 and average +1 gives risk 0, and
  polarities within [-1, 1] give an average within [-1, 1] and a risk within [0, 1]. With no
  article (an empty or otherwise false \<^verbatim>\<open>articles\<close> member, or none) the sentiment is 0.0
  and the record has no risk. When the fetch fails, and in every remaining case, the record
  is sentiment 0.0 with risk 0.5.
\<close>

theorem news_source_contract:
  "(\<forall>resp arts texts.
      news_api c = Some resp \<and> dict_get resp ''articles'' (JArr []) = Some (JArr arts) \<and>
      arts \<noteq> [] \<and> map article_text arts = map Some texts \<longrightarrow>
      (let avg = sum_list (map polarity texts) / of_nat (length texts);
           risk = 1 - ((avg + 1) / 2)
       in get_news_sentiment_for_country news_api polarity c =
            \<lparr>news_country = c, news_sentiment = avg, news_risk = Some risk\<rparr> \<and>
          (avg = -1 \<longrightarrow> risk = 1) \<and> (avg = 1 \<longrightarrow> risk = 0) \<and>
          ((\<forall>t\<in>set texts. -1 \<le> polarity t \<and> polarity t \<le> 1) \<longrightarrow>
             -1 \<le> avg \<and> avg \<le> 1 \<and> 0 \<le> risk \<and> risk \<le> 1))) \<and>
   (\<forall>resp articles.
      news_api c = Some resp \<and> dict_get resp ''articles'' (JArr []) = Some articles \<and>
      \<not> truthy articles \<longrightarrow>
      get_news_sentiment_for_country news_api polarity c =
        \<lparr>news_country = c, news_sentiment = 0, news_risk = None\<rparr>) \<and>
   (news_api c = None \<longrightarrow>
      get_news_sentiment_for_country news_api polarity c =
        \<lparr>news_country = c, news_sentiment = 0, news_risk = Some (1/2)\<rparr>) \<and>
   ((\<nexists>resp arts texts.
      news_api c = Some resp \<and> dict_get resp ''articles'' (JArr []) = Some (JArr arts) \<and>
      arts \<noteq> [] \<and> map article_text arts = map Some texts) \<and>
    (\<nexists>resp articles.
      news_api c = Some resp \<and> dict_get resp ''articles'' (JArr []) = Some articles \<and>
      \<not> truthy articles) \<longrightarrow>
      get_news_sentiment_for_country news_api polarity c =
        \<lparr>news_country = c, news_sentiment = 0, news_risk = Some (1/2)\<rparr>)"
proof -
  have success: "let avg = sum_list (map polarity texts) / of_nat (length texts);
           risk = 1 - ((avg + 1) / 2)
       in get_news_sentiment_for_country news_api polarity c =
            \<lparr>news_country = c, news_sentiment = avg, news_risk = Some risk\<rparr> \<and>
          (avg = -1 \<longrightarrow> risk = 1) \<and> (avg = 1 \<longrightarrow> risk = 0) \<and>
          ((\<forall>t\<in>set texts. -1 \<le> polarity t \<and> polarity t \<le> 1) \<longrightarrow>
             -1 \<le> avg \<and> avg \<le> 1 \<and> 0 \<le> risk \<and> risk \<le> 1)"
    if a: "news_api c = Some resp \<and> dict_get resp ''articles'' (JArr []) = Some (JArr arts) \<and>
      arts \<noteq> [] \<and> map article_text arts = map Some texts" for resp arts texts
  proof -
    define ps where "ps = map polarity texts"
    have s: "sentiments_of polarity arts = Some ps"
      using a sentiments_of_texts ps_def by blast
    have len: "length texts = length arts" using a by (metis length_map)
    hence ne: "ps \<noteq> []" using a ps_def by auto
    have r: "get_news_sentiment_for_country news_api polarity c =
       \<lparr>news_country = c, news_sentiment = sum_list ps / of_nat (length ps),
        news_risk = Some (1 - ((sum_list ps / of_nat (length ps) + 1) / 2))\<rparr>"
      using a s by (simp add: get_news_sentiment_for_country_def Let_def)
    have b: "(\<forall>t\<in>set texts. -1 \<le> polarity t \<and> polarity t \<le> 1) \<Longrightarrow>
        -1 \<le> sum_list ps / of_nat (length ps) \<and> sum_list ps / of_nat (length ps) \<le> 1"
      using avg_bounds[OF ne, of "-1" 1] by (simp add: ps_def)
    show ?thesis unfolding Let_def using r b by (auto simp: ps_def)
  qed
  have zero: "get_news_sentiment_for_country news_api polarity c =
        \<lparr>news_country = c, news_sentiment = 0, news_risk = None\<rparr>"
    if "news_api c = Some resp \<and> dict_get resp ''articles'' (JArr []) = Some articles \<and>
      \<not> truthy articles" for resp articles
    using that by (simp add: get_news_sentiment_for_country_def)
  have failure: "get_news_sentiment_for_country news_api polarity c =
        \<lparr>news_country = c, news_sentiment = 0, news_risk = Some (1/2)\<rparr>"
    if "news_api c = None"
    using that by (simp add: get_news_sentiment_for_country_def news_fallback_def)
  have rest: "get_news_sentiment_for_country news_api polarity c =
        \<lparr>news_country = c, news_sentiment = 0, news_risk = Some (1/2)\<rparr>"
    if ns: "\<nexists>resp arts texts.
      news_api c = Some resp \<and> dict_get resp ''articles'' (JArr []) = Some (JArr arts) \<and>
      arts \<noteq> [] \<and> map article_text arts = map Some texts"
    and nz: "\<nexists>resp articles.
      news_api c = Some resp \<and> dict_get resp ''articles'' (JArr []) = Some articles \<and>
      \<not> truthy articles"
  proof (cases "news_api c")
    case None
    thus ?thesis by (rule failure)
  next
    case (Some resp)
    show ?thesis
    proof (cases "dict_get resp ''articles'' (JArr [])")
      case None
      thus ?thesis using Some
        by (simp add: get_news_sentiment_for_country_def news_fallback_def)
    next
      case (Some articles)
      hence t: "truthy articles" using nz \<open>news_api c = Some resp\<close> by blast
      have "sentiments_of polarity items = None" if i: "iterate articles = Some items" for items
      proof (cases articles)
        case (JArr arts)
        hence e: "items = arts" and ne: "arts \<noteq> []" using i t by auto
        show ?thesis
        proof (rule ccontr)
          assume "sentiments_of polarity items \<noteq> None"
          then obtain ps where "sentiments_of polarity arts = Some ps" using e by auto
          from sentiments_of_Some [OF this] obtain texts where
            "map article_text arts = map Some texts" by blast
          thus False using ns \<open>news_api c = Some resp\<close> Some JArr ne by blast
        qed
      next
        case (JStr s)
        hence "items = map (\<lambda>c. JStr [c]) s" "s \<noteq> []" using i t by auto
        thus ?thesis by (intro sentiments_of_strings) auto
      next
        case (JObj kvs)
        hence "items = map JStr (remdups (map fst kvs))" "kvs \<noteq> []" using i t by auto
        thus ?thesis by (intro sentiments_of_strings) auto
      qed (use i in auto)
      thus ?thesis using Some \<open>news_api c = Some resp\<close> t
        by (simp add: get_news_sentiment_for_country_def news_fallback_def
              split: option.splits)
    qed
  qed
  show ?thesis using success zero failure rest by blast
qed

theorem news_source_contract_witness:
  "get_news_sentiment_for_country
     (\<lambda>c. if c = ''France''
          then Some (JObj [(''articles'',
                 JArr [JObj [(''title'', JStr ''a''), (''description'', JStr ''b'')],
                       JObj [(''title'', JStr ''c'')]])])
          else if c = ''Chile'' then Some (JObj [(''status'', JStr ''ok'')])
          else if c = ''Peru''
          then Some (JObj [(''articles'',
                 JArr [JObj [(''title'', JStr ''a''), (''description'', JNull)]])])
          else None)
     (\<lambda>t. if t = ''a b'' then -1 else 1/2) ''France'' =
     \<lparr>news_country = ''France'', news_sentiment = -1/4, news_risk = Some (5/8)\<rparr> \<and>
   get_news_sentiment_for_country
     (\<lambda>c. if c = ''France''
          then Some (JObj [(''articles'',
                 JArr [JObj [(''title'', JStr ''a''), (''description'', JStr ''b'')],
                       JObj [(''title'', JStr ''c'')]])])
          else if c = ''Chile'' then Some (JObj [(''status'', JStr ''ok'')])
          else if c = ''Peru''
          then Some (JObj [(''articles'',
                 JArr [JObj [(''title'', JStr ''a''), (''description'', JNull)]])])
          else None)
     (\<lambda>t. if t = ''a b'' then -1 else 1/2) ''Chile'' =
     \<lparr>news_country = ''Chile'', news_sentiment = 0, news_risk = None\<rparr> \<and>
   get_news_sentiment_for_country
     (\<lambda>c. if c = ''France''
          then Some (JObj [(''articles'',
                 JArr [JObj [(''title'', JStr ''a''), (''description'', JStr ''b'')],
                       JObj [(''title'', JStr ''c'')]])])
          else if c = ''Chile'' then Some (JObj [(''status'', JStr ''ok'')])
          else if c = ''Peru''
          then Some (JObj [(''articles'',
                 JArr [JObj [(''title'', JStr ''a''), (''description'', JNull)]])])
          else None)
     (\<lambda>t. if t = ''a b'' then -1 else 1/2) ''Ruritania'' =
     \<lparr>news_country = ''Ruritania'', news_sentiment = 0, news_risk = Some (1/2)\<rparr> \<and>
   get_news_sentiment_for_country
     (\<lambda>c. if c = ''France''
          then Some (JObj [(''articles'',
                 JArr [JObj [(''title'', JStr ''a''), (''description'', JStr ''b'')],
                       JObj [(''title'', JStr ''c'')]])])
          else if c = ''Chile'' then Some (JObj [(''status'', JStr ''ok'')])
          else if c = ''Peru''
          then Some (JObj [(''articles'',
                 JArr [JObj [(''title'', JStr ''a''), (''description'', JNull)]])])
          else None)
     (\<lambda>t. if t = ''a b'' then -1 else 1/2) ''Peru'' =
     \<lparr>news_country = ''Peru'', news_sentiment = 0, news_risk = Some (1/2)\<rparr>"
proof -
  define arts where "arts = [JObj [(''title'', JStr ''a''), (''description'', JStr ''b'')],
                       JObj [(''title'', JStr ''c'')]]"
  define bad where "bad = [JObj [(''title'', JStr ''a''), (''description'', JNull)]]"
  define api where "api = (\<lambda>c. if c = ''France'' then Some (JObj [(''articles'', JArr arts)])
          else if c = ''Chile'' then Some (JObj [(''status'', JStr ''ok'')])
          else if c = ''Peru'' then Some (JObj [(''articles'', JArr bad)])
          else None)"
  define pol :: "string \<Rightarrow> rat" where "pol = (\<lambda>t. if t = ''a b'' then -1 else 1/2)"
  have h: "api ''France'' = Some (JObj [(''articles'', JArr arts)]) \<and>
           dict_get (JObj [(''articles'', JArr arts)]) ''articles'' (JArr []) = Some (JArr arts) \<and>
           arts \<noteq> [] \<and> map article_text arts = map Some [''a b'', ''c '']"
    by (simp add: api_def arts_def article_text_def)
  have a: "get_news_sentiment_for_country api pol ''France'' =
     \<lparr>news_country = ''France'', news_sentiment = -1/4, news_risk = Some (5/8)\<rparr>"
    using conjunct1 [OF news_source_contract [of api "''France''" pol], rule_format, OF h]
    by (simp add: Let_def pol_def)
  have h2: "api ''Chile'' = Some (JObj [(''status'', JStr ''ok'')]) \<and>
            dict_get (JObj [(''status'', JStr ''ok'')]) ''articles'' (JArr []) = Some (JArr []) \<and>
            \<not> truthy (JArr [])"
    by (simp add: api_def)
  have b: "get_news_sentiment_for_country api pol ''Chile'' =
     \<lparr>news_country = ''Chile'', news_sentiment = 0, news_risk = None\<rparr>"
    using news_source_contract [of api "''Chile''" pol] h2 by blast
  have h3: "api ''Ruritania'' = None" by (simp add: api_def)
  have c: "get_news_sentiment_for_country api pol ''Ruritania'' =
     \<lparr>news_country = ''Ruritania'', news_sentiment = 0, news_risk = Some (1/2)\<rparr>"
    using news_source_contract [of api "''Ruritania''" pol] h3 by blast
  have p: "api ''Peru'' = Some (JObj [(''articles'', JArr bad)])" by (simp add: api_def)
  have h4: "\<nexists>resp arts texts.
      api ''Peru'' = Some resp \<and> dict_get resp ''articles'' (JArr []) = Some (JArr arts) \<and>
      arts \<noteq> [] \<and> map article_text arts = map Some texts"
    unfolding p by (auto simp: bad_def article_text_def)
  have h5: "\<nexists>resp articles.
      api ''Peru'' = Some resp \<and> dict_get resp ''articles'' (JArr []) = Some articles \<and>
      \<not> truthy articles"
    unfolding p by (auto simp: bad_def)
  have d: "get_news_sentiment_for_country api pol ''Peru'' =
     \<lparr>news_country = ''Peru'', news_sentiment = 0, news_risk = Some (1/2)\<rparr>"
    using news_source_contract [of api "''Peru''" pol] h4 h5 by blast
  show ?thesis using a b c d unfolding api_def arts_def bad_def pol_def by simp
qed

subsection \<open>Columns of a table\<close>

lemma col_index_le: "col_index cols c \<le> length cols"
  by (induction cols) auto

lemma col_index_less: "c \<in> set cols \<Longrightarrow> col_index cols c < length cols"
  by (induction cols) auto

lemma col_index_nth: "col_index cols c < length cols \<Longrightarrow> cols ! col_index cols c = c"
  by (induction cols) (auto split: if_splits)

lemma col_index_neq:
  assumes "c \<in> set cols" "d \<noteq> c"
  shows "col_index cols d \<noteq> col_index cols c"
proof
  assume e: "col_index cols d = col_index cols c"
  have l: "col_index cols c < length cols" using assms(1) by (rule col_index_less)
  have 1: "cols ! col_index cols c = c" using l by (rule col_index_nth)
  have "col_index cols d < length cols" using l e by simp
  hence 2: "cols ! col_index cols d = d" by (rule col_index_nth)
  show False using 1 2 e assms(2) by simp
qed

lemma columns_setcol [simp]: "columns (setcol df c vs) = columns df"
  by (simp add: setcol_def)

lemma length_getcol [simp]: "length (getcol df c) = length (rows df)"
  by (simp add: getcol_def)

lemma length_rows_setcol:
  "length vs = length (rows df) \<Longrightarrow> length (rows (setcol df c vs)) = length (rows df)"
  by (simp add: setcol_def)

lemma wf_setcol: "wf_table df \<Longrightarrow> wf_table (setcol df c vs)"
  by (auto simp: wf_table_def setcol_def dest!: set_zip_leftD)

lemma getcol_setcol_same:
  assumes "wf_table df" "c \<in> set (columns df)" "length vs = length (rows df)"
  shows "getcol (setcol df c vs) c = vs"
proof (rule nth_equalityI)
  show "length (getcol (setcol df c vs) c) = length vs"
    using assms(3) by (simp add: length_rows_setcol)
next
  fix i assume "i < length (getcol (setcol df c vs) c)"
  hence i: "i < length (rows df)" using assms(3) by (simp add: length_rows_setcol)
  hence "rows df ! i \<in> set (rows df)" by simp
  hence "length (rows df ! i) = length (columns df)" using assms(1) by (simp add: wf_table_def)
  hence "col_index (columns df) c < length (rows df ! i)"
    using assms(2) by (simp add: col_index_less)
  thus "getcol (setcol df c vs) c ! i = vs ! i"
    using i assms(3) by (simp add: getcol_def setcol_def)
qed

lemma getcol_setcol_other:
  assumes "c \<in> set (columns df)" "d \<noteq> c" "length vs = length (rows df)"
  shows "getcol (setcol df c vs) d = getcol df d"
proof (rule nth_equalityI)
  show "length (getcol (setcol df c vs) d) = length (getcol df d)"
    using assms(3) by (simp add: length_rows_setcol)
next
  fix i assume "i < length (getcol (setcol df c vs) d)"
  hence i: "i < length (rows df)" using assms(3) by (simp add: length_rows_setcol)
  have "col_index (columns df) d \<noteq> col_index (columns df) c"
    using assms(1,2) by (rule col_index_neq)
  thus "getcol (setcol df c vs) d ! i = getcol df d ! i"
    using i assms(3) by (simp add: getcol_def setcol_def)
qed

lemma setcol_map:
  "setcol df c (map f (getcol df c)) =
     df\<lparr>rows := map (\<lambda>r. r[col_index (columns df) c := f (r ! col_index (columns df) c)]) (rows df)\<rparr>"
  by (simp add: setcol_def getcol_def zip_map2 zip_same_conv_map comp_def case_prod_beta)

lemma setcol_getcol_id: "setcol df c (getcol df c) = df"
  using setcol_map [of df c "\<lambda>v. v"] by simp

lemma setcol_map_idem:
  assumes "\<And>v. f (f v) = f v"
  shows "setcol (setcol df c (map f (getcol df c))) c
           (map f (getcol (setcol df c (map f (getcol df c))) c)) =
         setcol df c (map f (getcol df c))"
proof -
  have "\<And>r i. r[i := f (r ! i), i := f (r[i := f (r ! i)] ! i)] = r[i := f (r ! i)]"
  proof -
    fix r :: "cell list" and i
    show "r[i := f (r ! i), i := f (r[i := f (r ! i)] ! i)] = r[i := f (r ! i)]"
      by (cases "i < length r") (simp_all add: assms list_update_beyond)
  qed
  thus ?thesis
    unfolding setcol_map by (simp add: setcol_map comp_def)
qed

subsection \<open>CategoryMapper\<close>

lemma replace_cell_country:
  "replace_cell country_mapping v =
     (if v = Str ''Usa'' then Str ''United States''
      else if v = Str ''Uk'' then Str ''United Kingdom''
      else if v = Str ''Uae'' then Str ''United Arab Emirates''
      else v)"
  by (cases v) (auto simp: country_mapping_def)

lemma replace_cell_country_idem:
  "replace_cell country_mapping (replace_cell country_mapping v) = replace_cell country_mapping v"
  by (simp add: replace_cell_country)

text \<open>
  C9. For every table and column: CategoryMapper replaces a cell exactly when it equals one
  of the keys \<^verbatim>\<open>"Usa"\<close>, \<^verbatim>\<open>"Uk"\<close>, \<^verbatim>\<open>"Uae"\<close> of the configured mapping (an exact,
  case-sensitive match) and leaves every other cell, every other column and the shape of the
  table as they are; it does nothing when the column is absent; and applying it twice gives
  the table that applying it once gives. \<^verbatim>\<open>"Usa"\<close> becomes \<^verbatim>\<open>"United States"\<close>.
\<close>

theorem category_mapper:
  assumes "wf_table df"
  shows "(column \<in> set (columns df) \<longrightarrow>
            getcol (standardize_countries df column) column =
              map (\<lambda>v. if v = Str ''Usa'' then Str ''United States''
                       else if v = Str ''Uk'' then Str ''United Kingdom''
                       else if v = Str ''Uae'' then Str ''United Arab Emirates''
                       else v) (getcol df column) \<and>
            (\<forall>d. d \<noteq> column \<longrightarrow> getcol (standardize_countries df column) d = getcol df d)) \<and>
         (column \<notin> set (columns df) \<longrightarrow> standardize_countries df column = df) \<and>
         columns (standardize_countries df column) = columns df \<and>
         length (rows (standardize_countries df column)) = length (rows df) \<and>
         standardize_countries (standardize_countries df column) column =
           standardize_countries df column"
proof -
  have same: "column \<in> set (columns df) \<Longrightarrow>
      getcol (standardize_countries df column) column =
        map (replace_cell country_mapping) (getcol df column)"
    using assms by (simp add: standardize_countries_def replace_def getcol_setcol_same)
  have other: "column \<in> set (columns df) \<Longrightarrow> d \<noteq> column \<Longrightarrow>
      getcol (standardize_countries df column) d = getcol df d" for d
    by (simp add: standardize_countries_def replace_def getcol_setcol_other)
  have idem: "standardize_countries (standardize_countries df column) column =
           standardize_countries df column"
    by (simp add: standardize_countries_def replace_def
          setcol_map_idem [of "replace_cell country_mapping", OF replace_cell_country_idem])
  have len: "length (rows (standardize_countries df column)) = length (rows df)"
    by (simp add: standardize_countries_def replace_def length_rows_setcol)
  have cols: "columns (standardize_countries df column) = columns df"
    by (simp add: standardize_countries_def)
  have absent: "column \<notin> set (columns df) \<Longrightarrow> standardize_countries df column = df"
    by (simp add: standardize_countries_def)
  have m: "map (replace_cell country_mapping) xs =
      map (\<lambda>v. if v = Str ''Usa'' then Str ''United States''
                       else if v = Str ''Uk'' then Str ''United Kingdom''
                       else if v = Str ''Uae'' then Str ''United Arab Emirates''
                       else v) xs" for xs
    by (intro map_cong refl) (rule replace_cell_country)
  show ?thesis using same other idem len cols absent m by metis
qed

theorem category_mapper_witness:
  "getcol (standardize_countries
      \<lparr>columns = [''origin_country'', ''transit_time_days''],
       rows = [[Str ''Usa'', Num 3], [Str ''usa'', Num 4], [Str ''France'', Num 5]]\<rparr>
      ''origin_country'') ''origin_country'' =
     [Str ''United States'', Str ''usa'', Str ''France'']"
proof -
  define df where "df = \<lparr>columns = [''origin_country'', ''transit_time_days''],
       rows = [[Str ''Usa'', Num 3], [Str ''usa'', Num 4], [Str ''France'', Num 5]]\<rparr>"
  have w: "wf_table df" by (simp add: df_def wf_table_def)
  have c: "''origin_country'' \<in> set (columns df)" by (simp add: df_def)
  have g: "getcol df ''origin_country'' = [Str ''Usa'', Str ''usa'', Str ''France'']"
    by (simp add: df_def getcol_def)
  have "getcol (standardize_countries df ''origin_country'') ''origin_country'' =
     [Str ''United States'', Str ''usa'', Str ''France'']"
    using category_mapper [OF w, of "''origin_country''"] c g by simp
  thus ?thesis by (simp add: df_def)
qed

subsection \<open>RangeValidator\<close>

lemma loc_set_map:
  "length sel = length (rows df) \<Longrightarrow>
   loc_set df sel c v = setcol df c (map (\<lambda>(m, old). if m then v else old) (zip sel (getcol df c)))"
  by (simp add: loc_set_def)




subsection \<open>OutlierCapper\<close>

lemma frac_bounds:
  fixes pos :: rat
  assumes "0 \<le> pos"
  shows "0 \<le> pos - of_nat (nat \<lfloor>pos\<rfloor>)" "pos - of_nat (nat \<lfloor>pos\<rfloor>) < 1"
proof -
  have "0 \<le> \<lfloor>pos\<rfloor>" using assms by simp
  hence e: "(of_nat (nat \<lfloor>pos\<rfloor>) :: rat) = of_int \<lfloor>pos\<rfloor>" by simp
  show "0 \<le> pos - of_nat (nat \<lfloor>pos\<rfloor>)" unfolding e by simp
  show "pos - of_nat (nat \<lfloor>pos\<rfloor>) < 1" unfolding e by linarith
qed

text \<open>
  On a sorted list the interpolated value lies between the two neighbours of its position.
\<close>

lemma interpolate_between:
  assumes "sorted vs" "vs \<noteq> []" "0 \<le> q" "q \<le> 1"
  shows "vs ! nat \<lfloor>q * (of_nat (length vs) - 1)\<rfloor> \<le> interpolate vs q"
    and "Suc (nat \<lfloor>q * (of_nat (length vs) - 1)\<rfloor>) < length vs \<Longrightarrow>
         interpolate vs q \<le> vs ! Suc (nat \<lfloor>q * (of_nat (length vs) - 1)\<rfloor>)"
proof -
  define pos where "pos = q * (of_nat (length vs) - 1)"
  define i where "i = nat \<lfloor>pos\<rfloor>"
  define frac where "frac = pos - of_nat i"
  have m: "(0::rat) \<le> of_nat (length vs) - 1" using assms(2) by (cases vs) auto
  have p: "0 \<le> pos" unfolding pos_def using assms(3) m by simp
  have f: "0 \<le> frac" "frac < 1" unfolding frac_def i_def using frac_bounds[OF p] by auto
  have I: "interpolate vs q = (if Suc i < length vs then vs ! i + frac * (vs ! Suc i - vs ! i) else vs ! i)"
    by (simp add: interpolate_def Let_def pos_def i_def frac_def)
  have d: "Suc i < length vs \<Longrightarrow> vs ! i \<le> vs ! Suc i"
    using assms(1) by (simp add: sorted_nth_mono)
  show "vs ! nat \<lfloor>q * (of_nat (length vs) - 1)\<rfloor> \<le> interpolate vs q"
  proof (cases "Suc i < length vs")
    case True
    hence "0 \<le> frac * (vs ! Suc i - vs ! i)" using d f by simp
    thus ?thesis using True I by (simp add: pos_def i_def)
  next
    case False
    thus ?thesis using I by (simp add: pos_def i_def)
  qed
  show "interpolate vs q \<le> vs ! Suc (nat \<lfloor>q * (of_nat (length vs) - 1)\<rfloor>)"
    if s: "Suc (nat \<lfloor>q * (of_nat (length vs) - 1)\<rfloor>) < length vs"
  proof -
    have s': "Suc i < length vs" using s by (simp add: pos_def i_def)
    have "frac * (vs ! Suc i - vs ! i) \<le> 1 * (vs ! Suc i - vs ! i)"
      using f d[OF s'] by (intro mult_right_mono) auto
    hence "interpolate vs q \<le> vs ! Suc i" using I s' by simp
    thus ?thesis by (simp add: pos_def i_def)
  qed
qed

lemma interpolate_mono:
  assumes "sorted vs" "vs \<noteq> []" "0 \<le> q" "q \<le> q'" "q' \<le> 1"
  shows "interpolate vs q \<le> interpolate vs q'"
proof -
  define m :: rat where "m = of_nat (length vs) - 1"
  define i where "i = nat \<lfloor>q * m\<rfloor>"
  define i' where "i' = nat \<lfloor>q' * m\<rfloor>"
  have m: "0 \<le> m" unfolding m_def using assms(2) by (cases vs) auto
  have pp: "q * m \<le> q' * m" using assms(4) m by (simp add: mult_right_mono)
  have p0: "0 \<le> q * m" using assms(3) m by simp
  have p0': "0 \<le> q' * m" using assms(3,4) m by simp
  have ii: "i \<le> i'" unfolding i_def i'_def using pp by (simp add: floor_mono nat_mono)
  have "q' * m \<le> 1 * m" using assms(5) m by (intro mult_right_mono) auto
  hence "\<lfloor>q' * m\<rfloor> \<le> \<lfloor>m\<rfloor>" by (simp add: floor_mono)
  moreover have "\<lfloor>m\<rfloor> = int (length vs) - 1" unfolding m_def by simp
  ultimately have i'n: "i' < length vs" unfolding i'_def using assms(2) by (cases vs) auto
  have I: "interpolate vs q = (if Suc i < length vs
        then vs ! i + (q * m - of_nat i) * (vs ! Suc i - vs ! i) else vs ! i)"
    by (simp add: interpolate_def Let_def m_def i_def)
  have I': "interpolate vs q' = (if Suc i' < length vs
        then vs ! i' + (q' * m - of_nat i') * (vs ! Suc i' - vs ! i') else vs ! i')"
    by (simp add: interpolate_def Let_def m_def i'_def)
  show ?thesis
  proof (cases "i = i'")
    case True
    show ?thesis
    proof (cases "Suc i < length vs")
      case s: True
      have "vs ! i \<le> vs ! Suc i" using assms(1) s by (simp add: sorted_nth_mono)
      hence "(q * m - of_nat i) * (vs ! Suc i - vs ! i) \<le> (q' * m - of_nat i) * (vs ! Suc i - vs ! i)"
        using pp by (intro mult_right_mono) auto
      thus ?thesis using I I' True s by simp
    next
      case False
      thus ?thesis using I I' True by simp
    qed
  next
    case False
    hence lt: "Suc i \<le> i'" using ii by simp
    hence s: "Suc i < length vs" using i'n by simp
    have "interpolate vs q \<le> vs ! Suc i"
      using interpolate_between(2)[OF assms(1,2,3)] assms(4,5) s
      by (simp add: m_def i_def)
    also have "vs ! Suc i \<le> vs ! i'"
      using assms(1) lt i'n by (simp add: sorted_nth_mono)
    also have "vs ! i' \<le> interpolate vs q'"
      using interpolate_between(1)[OF assms(1,2), of q'] assms(3,4,5)
      by (simp add: m_def i'_def)
    finally show ?thesis .
  qed
qed

lemma clip_cells_in_bounds:
  assumes "lo \<le> hi"
  shows "\<forall>r. Num r \<in> set (map (clip_cell lo hi) xs) \<longrightarrow> lo \<le> r \<and> r \<le> hi"
proof (induction xs)
  case Nil
  show ?case by simp
next
  case (Cons x xs)
  then show ?case using assms by (cases x) auto
qed

lemma clip_cell_case:
  "clip_cell lo hi v =
     (case v of Num r \<Rightarrow> Num (if r < lo then lo else if hi < r then hi else r) | _ \<Rightarrow> v)"
  by (cases v) auto

lemma sorted_numbers_nonempty: "numbers xs \<noteq> [] \<Longrightarrow> sort (numbers xs) \<noteq> []"
  by (metis length_sort length_0_conv)

text \<open>
  C3. For every table and column of numbers (and missing cells): with \<open>Q1\<close> and \<open>Q3\<close> the
  quartiles of the column before capping, \<open>IQR = Q3 - Q1\<close>, \<open>lo = Q1 - 1.5 * IQR\<close> and
  \<open>hi = Q3 + 1.5 * IQR\<close>, OutlierCapper turns each number below \<open>lo\<close> into \<open>lo\<close>, each
  number above \<open>hi\<close> into \<open>hi\<close>, leaves every other cell and column as it is, and
  afterwards every number of the column lies within \<open>[lo, hi]\<close>. When the column is absent
  (or holds no number) the table is returned as it is.
\<close>

theorem outlier_capper:
  assumes "wf_table df"
  shows "(column \<notin> set (columns df) \<longrightarrow> handle_outliers df column = Inr df) \<and>
         (column \<in> set (columns df) \<and> numeric_series (getcol df column) \<and>
          numbers (getcol df column) = [] \<longrightarrow> handle_outliers df column = Inr df) \<and>
         (column \<in> set (columns df) \<and> numeric_series (getcol df column) \<and>
          numbers (getcol df column) \<noteq> [] \<longrightarrow>
            (let vs = sort (numbers (getcol df column));
                 Q1 = interpolate vs (1/4);
                 Q3 = interpolate vs (3/4);
                 IQR = Q3 - Q1;
                 lo = Q1 - 3/2 * IQR;
                 hi = Q3 + 3/2 * IQR
             in \<exists>df'. handle_outliers df column = Inr df' \<and>
                  getcol df' column =
                    map (\<lambda>v. case v of
                               Num r \<Rightarrow> Num (if r < lo then lo else if hi < r then hi else r)
                             | _ \<Rightarrow> v) (getcol df column) \<and>
                  (\<forall>r. Num r \<in> set (getcol df' column) \<longrightarrow> lo \<le> r \<and> r \<le> hi) \<and>
                  (\<forall>d. d \<noteq> column \<longrightarrow> getcol df' d = getcol df d) \<and>
                  columns df' = columns df \<and>
                  length (rows df') = length (rows df)))"
proof (intro conjI impI)
  assume "column \<notin> set (columns df)"
  then show "handle_outliers df column = Inr df" by (simp add: handle_outliers_def)
next
  assume "column \<in> set (columns df) \<and> numeric_series (getcol df column) \<and>
          numbers (getcol df column) = []"
  then show "handle_outliers df column = Inr df"
    by (simp add: handle_outliers_def outlier_bounds_def quantile_def nan_minus_def
          nan_plus_def nan_times_def clip_def setcol_getcol_id)
next
  assume a: "column \<in> set (columns df) \<and> numeric_series (getcol df column) \<and>
          numbers (getcol df column) \<noteq> []"
  define xs where "xs = getcol df column"
  define vs where "vs = sort (numbers xs)"
  define Q1 where "Q1 = interpolate vs (1/4)"
  define Q3 where "Q3 = interpolate vs (3/4)"
  define lo where "lo = Q1 - 3/2 * (Q3 - Q1)"
  define hi where "hi = Q3 + 3/2 * (Q3 - Q1)"
  define df' where "df' = setcol df column (map (clip_cell lo hi) xs)"
  have s: "sorted vs" "vs \<noteq> []"
    using a by (simp_all add: vs_def xs_def sorted_numbers_nonempty)
  have q: "Q1 \<le> Q3" unfolding Q1_def Q3_def by (rule interpolate_mono [OF s]) simp_all
  hence "0 \<le> 3/2 * (Q3 - Q1)" by simp
  hence lh: "lo \<le> hi" using q unfolding lo_def hi_def by linarith
  have b: "outlier_bounds xs = Inr (Some lo, Some hi)"
    using a by (simp add: outlier_bounds_def quantile_def nan_minus_def nan_plus_def
        nan_times_def Let_def xs_def vs_def Q1_def Q3_def lo_def hi_def)
  have h: "handle_outliers df column = Inr df'"
    using a b by (simp add: handle_outliers_def clip_def df'_def xs_def)
  have len: "length (map (clip_cell lo hi) xs) = length (rows df)" by (simp add: xs_def)
  have g: "getcol df' column = map (clip_cell lo hi) xs"
    unfolding df'_def using assms a len by (simp add: getcol_setcol_same)
  have g2: "getcol df' column = map (\<lambda>v. case v of
                               Num r \<Rightarrow> Num (if r < lo then lo else if hi < r then hi else r)
                             | _ \<Rightarrow> v) xs"
    unfolding g by (intro map_cong refl) (rule clip_cell_case)
  have r: "\<forall>r. Num r \<in> set (getcol df' column) \<longrightarrow> lo \<le> r \<and> r \<le> hi"
    unfolding g using lh by (rule clip_cells_in_bounds)
  have o: "\<forall>d. d \<noteq> column \<longrightarrow> getcol df' d = getcol df d"
    unfolding df'_def using a len by (simp add: getcol_setcol_other)
  have c: "columns df' = columns df" by (simp add: df'_def)
  have l: "length (rows df') = length (rows df)"
    using len by (simp add: df'_def length_rows_setcol)
  show "let vs = sort (numbers (getcol df column));
                 Q1 = interpolate vs (1/4);
                 Q3 = interpolate vs (3/4);
                 IQR = Q3 - Q1;
                 lo = Q1 - 3/2 * IQR;
                 hi = Q3 + 3/2 * IQR
             in \<exists>df'. handle_outliers df column = Inr df' \<and>
                  getcol df' column =
                    map (\<lambda>v. case v of
                               Num r \<Rightarrow> Num (if r < lo then lo else if hi < r then hi else r)
                             | _ \<Rightarrow> v) (getcol df column) \<and>
                  (\<forall>r. Num r \<in> set (getcol df' column) \<longrightarrow> lo \<le> r \<and> r \<le> hi) \<and>
                  (\<forall>d. d \<noteq> column \<longrightarrow> getcol df' d = getcol df d) \<and>
                  columns df' = columns df \<and>
                  length (rows df') = length (rows df)"
    unfolding Let_def
    using h g2 r o c l
    unfolding xs_def vs_def Q1_def Q3_def lo_def hi_def xs_def
    by blast
qed

text \<open>The spec's example: 10, 12, 11, 1000, 9 and the imputed 11.\<close>

lemma example_sorted: "sort [10, 12, 11, 1000, 9, 11 :: rat] = [9, 10, 11, 11, 12, 1000]"
  by code_simp

lemma example_q1: "interpolate [9, 10, 11, 11, 12, 1000 :: rat] (1/4) = 41/4"
  by code_simp

lemma example_q3: "interpolate [9, 10, 11, 11, 12, 1000 :: rat] (3/4) = 47/4"
  by code_simp

theorem outlier_capper_witness:
  "\<exists>df'. handle_outliers
           \<lparr>columns = [''supplier_name'', ''on_time_delivery''],
            rows = [[Str ''A'', Num 10], [Str ''B'', Num 12], [Str ''C'', Num 11],
                    [Str ''D'', Num 1000], [Str ''E'', Num 9], [Str ''F'', Num 11]]\<rparr>
           ''on_time_delivery'' = Inr df' \<and>
         getcol df' ''on_time_delivery'' = [Num 10, Num 12, Num 11, Num 14, Num 9, Num 11]"
proof -
  define df where "df = \<lparr>columns = [''supplier_name'', ''on_time_delivery''],
            rows = [[Str ''A'', Num 10], [Str ''B'', Num 12], [Str ''C'', Num 11],
                    [Str ''D'', Num 1000], [Str ''E'', Num 9], [Str ''F'', Num 11]]\<rparr>"
  have w: "wf_table df" by (simp add: df_def wf_table_def)
  have g0: "getcol df ''on_time_delivery'' = [Num 10, Num 12, Num 11, Num 1000, Num 9, Num 11]"
    by (simp add: df_def getcol_def)
  have n: "numbers (getcol df ''on_time_delivery'') = [10, 12, 11, 1000, 9, 11]"
    by (simp add: g0)
  have c: "''on_time_delivery'' \<in> set (columns df)" by (simp add: df_def)
  have a: "''on_time_delivery'' \<in> set (columns df) \<and>
           numeric_series (getcol df ''on_time_delivery'') \<and>
           numbers (getcol df ''on_time_delivery'') \<noteq> []"
    using c by (simp add: g0 numeric_series_def is_number_def)
  obtain df' where
    h: "handle_outliers df ''on_time_delivery'' = Inr df'" and
    g: "getcol df' ''on_time_delivery'' =
          map (\<lambda>v. case v of
                     Num r \<Rightarrow> Num (if r < 41/4 - 3/2 * (47/4 - 41/4) then 41/4 - 3/2 * (47/4 - 41/4)
                                   else if 47/4 + 3/2 * (47/4 - 41/4) < r
                                        then 47/4 + 3/2 * (47/4 - 41/4) else r)
                   | _ \<Rightarrow> v) (getcol df ''on_time_delivery'')"
    using outlier_capper [OF w, of "''on_time_delivery''"] a
    unfolding Let_def n example_sorted example_q1 example_q3 by blast
  have "getcol df' ''on_time_delivery'' = [Num 10, Num 12, Num 11, Num 14, Num 9, Num 11]"
    unfolding g g0 by simp
  thus ?thesis using h unfolding df_def by blast
qed

subsection \<open>Title case and stripping\<close>

lemma of_char_upper_char:
  assumes "is_lower c"
  shows "(of_char (upper_char c) :: nat) = of_char c - 32"
proof -
  have "(of_char c :: nat) - 32 < 256" using assms unfolding is_lower_def by arith
  thus ?thesis using assms by (simp add: upper_char_def)
qed

lemma of_char_lower_char:
  assumes "is_upper c"
  shows "(of_char (lower_char c) :: nat) = of_char c + 32"
proof -
  have "(of_char c :: nat) + 32 < 256" using assms unfolding is_upper_def by arith
  thus ?thesis using assms by (simp add: lower_char_def)
qed

lemma is_upper_upper_char: "is_lower c \<Longrightarrow> is_upper (upper_char c)"
  using of_char_upper_char [of c] unfolding is_upper_def is_lower_def by arith

lemma is_lower_lower_char: "is_upper c \<Longrightarrow> is_lower (lower_char c)"
  using of_char_lower_char [of c] unfolding is_upper_def is_lower_def by arith

lemma not_upper_and_lower: "is_upper c \<Longrightarrow> \<not> is_lower c"
  by (simp add: is_upper_def is_lower_def)

lemma is_cased_upper_char [simp]: "is_cased (upper_char c) = is_cased c"
proof (cases "is_lower c")
  case True
  then show ?thesis using is_upper_upper_char by (simp add: is_cased_def)
next
  case False
  then show ?thesis by (simp add: upper_char_def)
qed

lemma is_cased_lower_char [simp]: "is_cased (lower_char c) = is_cased c"
proof (cases "is_upper c")
  case True
  then show ?thesis using is_lower_lower_char by (simp add: is_cased_def)
next
  case False
  then show ?thesis by (simp add: lower_char_def)
qed

lemma upper_char_idem [simp]: "upper_char (upper_char c) = upper_char c"
proof (cases "is_lower c")
  case True
  hence "\<not> is_lower (upper_char c)" using is_upper_upper_char not_upper_and_lower by blast
  thus ?thesis by (simp add: upper_char_def)
next
  case False
  then show ?thesis by (simp add: upper_char_def)
qed

lemma lower_char_idem [simp]: "lower_char (lower_char c) = lower_char c"
proof (cases "is_upper c")
  case True
  hence "\<not> is_upper (lower_char c)" using is_lower_lower_char not_upper_and_lower by blast
  thus ?thesis by (simp add: lower_char_def)
next
  case False
  then show ?thesis by (simp add: lower_char_def)
qed

lemma cased_not_space: "is_cased c \<Longrightarrow> \<not> is_space c"
  by (auto simp: is_cased_def is_upper_def is_lower_def is_space_def)

lemma is_space_upper_char [simp]: "is_space (upper_char c) = is_space c"
proof (cases "is_lower c")
  case True
  hence "is_cased c" "is_cased (upper_char c)"
    using is_upper_upper_char by (simp_all add: is_cased_def del: is_cased_upper_char)
  thus ?thesis using cased_not_space by blast
next
  case False
  then show ?thesis by (simp add: upper_char_def)
qed

lemma is_space_lower_char [simp]: "is_space (lower_char c) = is_space c"
proof (cases "is_upper c")
  case True
  hence "is_cased c" "is_cased (lower_char c)"
    using is_lower_lower_char by (simp_all add: is_cased_def del: is_cased_lower_char)
  thus ?thesis using cased_not_space by blast
next
  case False
  then show ?thesis by (simp add: lower_char_def)
qed

lemma title_from_idem: "title_from b (title_from b s) = title_from b s"
  by (induction s arbitrary: b) auto

lemma title_idem: "title (title s) = title s"
  by (simp add: title_def title_from_idem)

lemma title_from_eq_Nil [simp]: "title_from b s = [] \<longleftrightarrow> s = []"
  by (cases s) auto

lemma hd_title_from: "s \<noteq> [] \<Longrightarrow> is_space (hd (title_from b s)) = is_space (hd s)"
  by (cases s) auto

lemma last_title_from: "s \<noteq> [] \<Longrightarrow> is_space (last (title_from b s)) = is_space (last s)"
  by (induction s arbitrary: b) auto

lemma dropWhile_hd_id: "s = [] \<or> \<not> P (hd s) \<Longrightarrow> dropWhile P s = s"
  by (cases s) auto

lemma strip_trimmed: "trimmed s \<Longrightarrow> strip s = s"
proof -
  assume t: "trimmed s"
  hence 1: "dropWhile is_space s = s" unfolding trimmed_def by (intro dropWhile_hd_id) auto
  have "rev s = [] \<or> \<not> is_space (hd (rev s))"
    using t unfolding trimmed_def by (auto simp: hd_rev)
  hence 2: "dropWhile is_space (rev s) = rev s" by (rule dropWhile_hd_id)
  show ?thesis by (simp add: strip_def 1 2)
qed

lemma trimmed_strip: "trimmed (strip s)"
proof -
  define t where "t = dropWhile is_space s"
  define u where "u = dropWhile is_space (rev t)"
  have st: "strip s = rev u" by (simp add: strip_def t_def u_def)
  have t0: "t = [] \<or> \<not> is_space (hd t)"
    unfolding t_def by (metis hd_dropWhile)
  have u0: "u = [] \<or> \<not> is_space (hd u)"
    unfolding u_def by (metis hd_dropWhile)
  show ?thesis
  proof (cases "u = []")
    case True
    then show ?thesis by (simp add: st trimmed_def)
  next
    case False
    hence l: "\<not> is_space (last (rev u))" using u0 by (simp add: last_rev)
    obtain p where p: "rev t = p @ u" unfolding u_def
      by (metis takeWhile_dropWhile_id)
    hence "t = rev u @ rev p" by (metis rev_append rev_rev_ident)
    hence "hd t = hd (rev u)" using False by simp
    moreover have "t \<noteq> []" using p False by auto
    ultimately have "\<not> is_space (hd (rev u))" using t0 by simp
    then show ?thesis using l by (simp add: st trimmed_def)
  qed
qed

lemma trimmed_title: "trimmed s \<Longrightarrow> trimmed (title s)"
  by (auto simp: trimmed_def title_def hd_title_from last_title_from)

lemma title_strip_fixed: "title (strip (title (strip s))) = title (strip s)"
  by (simp add: strip_trimmed trimmed_title trimmed_strip title_idem)

lemma unknown_fixed: "title (strip ''Unknown'') = ''Unknown''"
  by code_simp

subsection \<open>The loops of the Cleaner\<close>

lemma apply_series_props:
  assumes "keeps_length f" "wf_table df" "c \<in> set (columns df)" "apply_series f df c = Inr df'"
  shows "columns df' = columns df" "wf_table df'" "length (rows df') = length (rows df)"
    "f (getcol df c) = Inr (getcol df' c)" "\<And>d. d \<noteq> c \<Longrightarrow> getcol df' d = getcol df d"
proof -
  obtain ys where f: "f (getcol df c) = Inr ys" and d: "df' = setcol df c ys"
    using assms(4) by (auto simp: apply_series_def split: sum.splits)
  have len: "length ys = length (rows df)"
    using assms(1) f by (auto simp: keeps_length_def)
  show "columns df' = columns df" by (simp add: d)
  show "wf_table df'" using assms(2) by (simp add: d wf_setcol)
  show "length (rows df') = length (rows df)" using len by (simp add: d length_rows_setcol)
  show "f (getcol df c) = Inr (getcol df' c)"
    using f assms(2,3) len by (simp add: d getcol_setcol_same)
  show "\<And>d. d \<noteq> c \<Longrightarrow> getcol df' d = getcol df d"
    using assms(3) len by (simp add: d getcol_setcol_other)
qed

lemma for_each_column_props:
  assumes "keeps_length f" "settles f"
  shows "wf_table df \<Longrightarrow> for_each_column f cols df = Inr df' \<Longrightarrow>
         columns df' = columns df \<and> wf_table df' \<and> length (rows df') = length (rows df) \<and>
         (\<forall>c \<in> set (columns df). stage f cols c (getcol df c) (getcol df' c))"
proof (induction cols arbitrary: df)
  case Nil
  then show ?case by (simp add: stage_def)
next
  case (Cons col cols)
  show ?case
  proof (cases "col \<in> set (columns df)")
    case False
    hence "for_each_column f cols df = Inr df'" using Cons.prems(2) by simp
    from Cons.IH [OF Cons.prems(1) this] False show ?thesis
      by (auto simp: stage_def)
  next
    case True
    then obtain df1 where a: "apply_series f df col = Inr df1"
      and r: "for_each_column f cols df1 = Inr df'"
      using Cons.prems(2) by (auto split: sum.splits)
    note p = apply_series_props [OF assms(1) Cons.prems(1) True a]
    note ih = Cons.IH [OF p(2) r]
    have "stage f (col # cols) c (getcol df c) (getcol df' c)" if c: "c \<in> set (columns df)" for c
    proof -
      have s: "stage f cols c (getcol df1 c) (getcol df' c)" using ih c p(1) by simp
      show ?thesis
      proof (cases "c = col")
        case False
        thus ?thesis using s p(5) [of c] by (simp add: stage_def)
      next
        case True
        have 1: "f (getcol df col) = Inr (getcol df1 col)" by (rule p(4))
        hence 2: "f (getcol df1 col) = Inr (getcol df1 col)"
          using assms(2) by (auto simp: settles_def)
        have "getcol df' col = getcol df1 col"
          using s True 2 by (auto simp: stage_def split: if_splits)
        thus ?thesis using True 1 by (simp add: stage_def)
      qed
    qed
    thus ?thesis using ih p(1,3) by simp
  qed
qed

lemma for_each_column_total:
  assumes "keeps_length f" "settles f"
  shows "wf_table df \<Longrightarrow>
         (\<forall>c \<in> set cols. c \<in> set (columns df) \<longrightarrow> (\<exists>ys. f (getcol df c) = Inr ys)) \<Longrightarrow>
         \<exists>df'. for_each_column f cols df = Inr df'"
proof (induction cols arbitrary: df)
  case Nil
  then show ?case by simp
next
  case (Cons col cols)
  show ?case
  proof (cases "col \<in> set (columns df)")
    case False
    thus ?thesis using Cons.IH [of df] Cons.prems by simp
  next
    case True
    then obtain ys where f: "f (getcol df col) = Inr ys" using Cons.prems(2) by auto
    define df1 where "df1 = setcol df col ys"
    have a: "apply_series f df col = Inr df1" by (simp add: apply_series_def f df1_def)
    note p = apply_series_props [OF assms(1) Cons.prems(1) True a]
    have "\<exists>zs. f (getcol df1 c) = Inr zs" if c: "c \<in> set cols" "c \<in> set (columns df1)" for c
    proof (cases "c = col")
      case True
      thus ?thesis using p(4) assms(2) by (auto simp: settles_def)
    next
      case False
      thus ?thesis using p(5) [of c] p(1) c Cons.prems(2) by simp
    qed
    hence "\<exists>df'. for_each_column f cols df1 = Inr df'"
      using Cons.IH [OF p(2)] by blast
    thus ?thesis using True a by simp
  qed
qed

subsection \<open>The series functions of the Cleaner\<close>

lemma fillna_no_missing: "Missing \<notin> set xs \<Longrightarrow> fillna v xs = xs"
  by (induction xs) (auto simp: fillna_def)

lemma fillna_Missing [simp]: "fillna Missing xs = xs"
  by (induction xs) (auto simp: fillna_def)

lemma fillna_removes: "v \<noteq> Missing \<Longrightarrow> Missing \<notin> set (fillna v xs)"
  by (auto simp: fillna_def)

lemma numeric_series_fillna:
  "numeric_series xs \<Longrightarrow> numeric_series (fillna (Num r) xs)"
  by (induction xs) (auto simp: numeric_series_def fillna_def is_number_def)

lemma median_cases:
  "median xs = Inr m \<Longrightarrow> numeric_series xs \<and> (m = Missing \<or> (\<exists>r. m = Num r))"
  by (auto simp: median_def split: if_splits)

lemma median_numeric: "numeric_series xs \<Longrightarrow> \<exists>m. median xs = Inr m"
  by (simp add: median_def)

lemma keeps_length_impute_numeric: "keeps_length impute_numeric"
  by (auto simp: keeps_length_def impute_numeric_def fillna_def split: sum.splits)

lemma impute_numeric_fixed:
  assumes "numeric_series xs" "Missing \<notin> set xs"
  shows "impute_numeric xs = Inr xs"
proof -
  obtain m where "median xs = Inr m" using assms(1) median_numeric by blast
  thus ?thesis using assms(2) by (simp add: impute_numeric_def fillna_no_missing)
qed

lemma settles_impute_numeric: "settles impute_numeric"
  unfolding settles_def
proof (intro allI impI)
  fix xs ys assume a: "impute_numeric xs = Inr ys"
  then obtain m where m: "median xs = Inr m" and ys: "ys = fillna m xs"
    by (auto simp: impute_numeric_def split: sum.splits)
  from median_cases [OF m] have n: "numeric_series xs" and c: "m = Missing \<or> (\<exists>r. m = Num r)"
    by auto
  from c show "impute_numeric ys = Inr ys"
  proof
    assume "m = Missing"
    thus ?thesis using a ys by simp
  next
    assume "\<exists>r. m = Num r"
    then obtain r where r: "m = Num r" by blast
    have "numeric_series ys" "Missing \<notin> set ys"
      using n by (simp_all add: ys r numeric_series_fillna fillna_removes)
    thus ?thesis by (rule impute_numeric_fixed)
  qed
qed

lemma keeps_length_impute_categorical: "keeps_length impute_categorical"
  by (auto simp: keeps_length_def impute_categorical_def fillna_def)

lemma settles_impute_categorical: "settles impute_categorical"
  by (auto simp: settles_def impute_categorical_def fillna_def)

lemma keeps_length_coerce_temporal: "keeps_length (coerce_temporal p)"
  by (auto simp: keeps_length_def coerce_temporal_def fillna_def to_datetime_def)

lemma coerce_temporal_dates: "coerce_temporal p xs = Inr ys \<Longrightarrow> list_all is_date ys"
  by (auto simp: coerce_temporal_def fillna_def to_datetime_def list_all_iff is_date_def
           split: cell.splits option.splits)

lemma coerce_temporal_fixed: "list_all is_date xs \<Longrightarrow> coerce_temporal p xs = Inr xs"
proof -
  assume d: "list_all is_date xs"
  have "map (\<lambda>x. if x = Missing then Date 0 else x)
          (map (\<lambda>v. case v of Missing \<Rightarrow> Missing | Date d \<Rightarrow> Date d
                   | _ \<Rightarrow> (case p zs v of Some d \<Rightarrow> Date d | None \<Rightarrow> Missing)) xs) = xs" for zs
    using d by (induction xs) (auto simp: is_date_def split: cell.splits)
  thus ?thesis by (simp add: coerce_temporal_def fillna_def to_datetime_def)
qed

lemma settles_coerce_temporal: "settles (coerce_temporal p)"
  unfolding settles_def using coerce_temporal_dates coerce_temporal_fixed by blast

lemma str_accessor_ok_text:
  "list_all text_or_missing xs \<Longrightarrow> str_accessor_ok xs"
proof -
  assume a: "list_all text_or_missing xs"
  define ys where "ys = filter (\<lambda>v. v \<noteq> Missing) xs"
  have "\<forall>v \<in> set ys. is_str v" using a by (auto simp: ys_def list_all_iff text_or_missing_def)
  hence "ys = [] \<or> list_ex is_str ys" by (cases ys) auto
  thus ?thesis unfolding str_accessor_ok_def Let_def ys_def by blast
qed

lemma text_or_missing_strip_cell: "text_or_missing (strip_cell v)"
  by (cases v) (auto simp: text_or_missing_def is_str_def)

lemma text_or_missing_title_cell: "text_or_missing (title_cell v)"
  by (cases v) (auto simp: text_or_missing_def is_str_def)

lemma normalize_categorical_eq:
  "normalize_categorical xs =
     (if str_accessor_ok xs then Inr (map normalize_cell xs) else Inl AttributeError)"
proof (cases "str_accessor_ok xs")
  case False
  thus ?thesis by (simp add: normalize_categorical_def str_strip_def)
next
  case True
  have "list_all text_or_missing (map strip_cell xs)"
    by (simp add: list_all_iff text_or_missing_strip_cell)
  hence "str_accessor_ok (map strip_cell xs)" by (rule str_accessor_ok_text)
  thus ?thesis using True
    by (simp add: normalize_categorical_def str_strip_def str_title_def normalize_cell_def comp_def)
qed

lemma normalize_cell_idem: "normalize_cell (normalize_cell v) = normalize_cell v"
  by (cases v) (auto simp: normalize_cell_def title_strip_fixed)

lemma text_or_missing_normalize_cell: "text_or_missing (normalize_cell v)"
  by (simp add: normalize_cell_def text_or_missing_title_cell)

lemma keeps_length_normalize_categorical: "keeps_length normalize_categorical"
  by (auto simp: keeps_length_def normalize_categorical_eq split: if_splits)

lemma settles_normalize_categorical: "settles normalize_categorical"
  unfolding settles_def
proof (intro allI impI)
  fix xs ys assume "normalize_categorical xs = Inr ys"
  hence ys: "ys = map normalize_cell xs" by (auto simp: normalize_categorical_eq split: if_splits)
  have "list_all text_or_missing ys" by (simp add: ys list_all_iff text_or_missing_normalize_cell)
  hence "str_accessor_ok ys" by (rule str_accessor_ok_text)
  thus "normalize_categorical ys = Inr ys"
    by (simp add: normalize_categorical_eq ys normalize_cell_idem)
qed

lemma fill_zero_is_number:
  "is_number (if to_numeric_cell parse v = Missing then Num 0 else to_numeric_cell parse v)"
  by (cases v) (auto simp: is_number_def split: option.splits)

lemma astype_fill_zero:
  "astype_int_cell (if to_numeric_cell parse v = Missing then Num 0 else to_numeric_cell parse v) =
   coerce_cell parse v"
  by (cases v) (auto simp: coerce_cell_def truncate_def split: option.splits)

lemma coerce_numeric_eq: "coerce_numeric parse xs = Inr (map (coerce_cell parse) xs)"
proof -
  have n: "list_all is_number (fillna (Num 0) (to_numeric parse xs))"
    by (induction xs) (simp_all add: fillna_def to_numeric_def fill_zero_is_number)
  have "map astype_int_cell (fillna (Num 0) (to_numeric parse xs)) = map (coerce_cell parse) xs"
    by (simp add: fillna_def to_numeric_def astype_fill_zero)
  thus ?thesis using n by (simp add: coerce_numeric_def astype_int_def)
qed

lemma truncate_of_int [simp]: "truncate (of_int k) = k"
  by (simp add: truncate_def)

lemma is_integer_coerce_cell: "is_integer_cell (coerce_cell parse v)"
  by (cases v) (auto simp: coerce_cell_def is_integer_cell_def split: option.splits)

lemma coerce_cell_integer: "is_integer_cell v \<Longrightarrow> coerce_cell parse v = v"
proof (cases v)
  case (Num r)
  assume "is_integer_cell v"
  hence "r = of_int \<lfloor>r\<rfloor>" using Num by (simp add: is_integer_cell_def)
  hence "of_int (truncate r) = r" by (metis truncate_of_int)
  thus ?thesis using Num by (simp add: coerce_cell_def)
qed (auto simp: is_integer_cell_def)

lemma coerce_cell_idem: "coerce_cell parse (coerce_cell parse v) = coerce_cell parse v"
  by (simp add: coerce_cell_integer is_integer_coerce_cell)

lemma keeps_length_coerce_numeric: "keeps_length (coerce_numeric parse)"
  by (auto simp: keeps_length_def coerce_numeric_eq)

lemma settles_coerce_numeric: "settles (coerce_numeric parse)"
  by (auto simp: settles_def coerce_numeric_eq coerce_cell_idem)

subsection \<open>The Cleaner, column by column\<close>

lemma wf_drop_duplicates: "wf_table df \<Longrightarrow> wf_table (drop_duplicates df)"
proof -
  have "set (keep_first seen rs) \<subseteq> set rs" for seen and rs :: "cell list list"
    by (induction rs arbitrary: seen) auto
  thus "wf_table df \<Longrightarrow> wf_table (drop_duplicates df)"
    by (auto simp: wf_table_def drop_duplicates_def)
qed

lemma columns_drop_duplicates [simp]: "columns (drop_duplicates df) = columns df"
  by (simp add: drop_duplicates_def)

lemma clean_data_columns:
  assumes "wf_table df"
    and "clean_data pd pn df nc cc dc = Inr df'"
  shows "columns df' = columns df \<and> wf_table df' \<and>
         length (rows df') = length (rows (drop_duplicates df)) \<and>
         (\<forall>c \<in> set (columns df). \<exists>x2 x3 x4 x5.
            stage impute_numeric (column_list nc) c (getcol (drop_duplicates df) c) x2 \<and>
            stage impute_categorical (column_list cc) c x2 x3 \<and>
            stage (coerce_temporal pd) (column_list dc) c x3 x4 \<and>
            stage normalize_categorical (column_list cc) c x4 x5 \<and>
            stage (coerce_numeric pn) (column_list nc) c x5 (getcol df' c))"
proof -
  define df1 where "df1 = drop_duplicates df"
  obtain df2 df3 df4 df5 where
    s2: "for_each_column impute_numeric (column_list nc) df1 = Inr df2" and
    s3: "for_each_column impute_categorical (column_list cc) df2 = Inr df3" and
    s4: "for_each_column (coerce_temporal pd) (column_list dc) df3 = Inr df4" and
    s5: "for_each_column normalize_categorical (column_list cc) df4 = Inr df5" and
    s6: "for_each_column (coerce_numeric pn) (column_list nc) df5 = Inr df'"
    using assms(2) unfolding clean_data_def df1_def by (auto split: sum.splits)
  have w1: "wf_table df1" using assms(1) by (simp add: df1_def wf_drop_duplicates)
  note p2 = for_each_column_props [OF keeps_length_impute_numeric settles_impute_numeric w1 s2]
  hence w2: "wf_table df2" by simp
  note p3 = for_each_column_props
    [OF keeps_length_impute_categorical settles_impute_categorical w2 s3]
  hence w3: "wf_table df3" by simp
  note p4 = for_each_column_props
    [OF keeps_length_coerce_temporal settles_coerce_temporal w3 s4]
  hence w4: "wf_table df4" by simp
  note p5 = for_each_column_props
    [OF keeps_length_normalize_categorical settles_normalize_categorical w4 s5]
  hence w5: "wf_table df5" by simp
  note p6 = for_each_column_props
    [OF keeps_length_coerce_numeric settles_coerce_numeric w5 s6]
  have c: "columns df1 = columns df" "columns df2 = columns df" "columns df3 = columns df"
    "columns df4 = columns df" "columns df5 = columns df" "columns df' = columns df"
    using p2 p3 p4 p5 p6 by (simp_all add: df1_def)
  have l: "length (rows df') = length (rows df1)"
    using p2 p3 p4 p5 p6 by simp
  have "\<exists>x2 x3 x4 x5.
            stage impute_numeric (column_list nc) c (getcol df1 c) x2 \<and>
            stage impute_categorical (column_list cc) c x2 x3 \<and>
            stage (coerce_temporal pd) (column_list dc) c x3 x4 \<and>
            stage normalize_categorical (column_list cc) c x4 x5 \<and>
            stage (coerce_numeric pn) (column_list nc) c x5 (getcol df' c)"
    if "c \<in> set (columns df)" for c
  proof (intro exI conjI)
    show "stage impute_numeric (column_list nc) c (getcol df1 c) (getcol df2 c)"
      using p2 that c by simp
    show "stage impute_categorical (column_list cc) c (getcol df2 c) (getcol df3 c)"
      using p3 that c by simp
    show "stage (coerce_temporal pd) (column_list dc) c (getcol df3 c) (getcol df4 c)"
      using p4 that c by simp
    show "stage normalize_categorical (column_list cc) c (getcol df4 c) (getcol df5 c)"
      using p5 that c by simp
    show "stage (coerce_numeric pn) (column_list nc) c (getcol df5 c) (getcol df' c)"
      using p6 that c by simp
  qed
  thus ?thesis using c l p6 unfolding df1_def by blast
qed

lemma set_keep_first: "set (keep_first seen rs) \<subseteq> set rs"
  by (induction rs arbitrary: seen) auto

lemma set_getcol_drop_duplicates: "set (getcol (drop_duplicates df) c) \<subseteq> set (getcol df c)"
  using set_keep_first [of "[]" "rows df"] by (auto simp: getcol_def drop_duplicates_def)

lemma numeric_series_drop_duplicates:
  "numeric_series (getcol df c) \<Longrightarrow> numeric_series (getcol (drop_duplicates df) c)"
  using set_getcol_drop_duplicates [of df c] by (auto simp: numeric_series_def list_all_iff)

lemma stage_total:
  "(c \<in> set cols \<Longrightarrow> \<exists>ys. f xs = Inr ys) \<Longrightarrow> \<exists>ys. stage f cols c xs ys"
  by (auto simp: stage_def)

lemma fillna_unknown_text:
  "list_all text_or_missing xs \<Longrightarrow> list_all is_str (fillna (Str ''Unknown'') xs)"
  by (induction xs) (auto simp: fillna_def text_or_missing_def is_str_def)

lemma str_accessor_ok_strs: "list_all is_str xs \<Longrightarrow> str_accessor_ok xs"
  by (rule str_accessor_ok_text) (auto simp: list_all_iff text_or_missing_def)

lemma clean_data_total:
  assumes "wf_table df"
    and "well_typed df (column_list nc) (column_list cc) (column_list dc)"
  shows "\<exists>df'. clean_data pd pn df nc cc dc = Inr df'"
proof -
  define df1 where "df1 = drop_duplicates df"
  have w1: "wf_table df1" using assms(1) by (simp add: df1_def wf_drop_duplicates)
  have c1: "columns df1 = columns df" by (simp add: df1_def)
  have "\<forall>c \<in> set (column_list nc). c \<in> set (columns df1) \<longrightarrow>
          (\<exists>ys. impute_numeric (getcol df1 c) = Inr ys)"
  proof (intro ballI impI)
    fix c assume "c \<in> set (column_list nc)" "c \<in> set (columns df1)"
    hence "numeric_series (getcol df1 c)"
      using assms(2) unfolding df1_def well_typed_def
      by (simp add: numeric_series_drop_duplicates)
    then obtain m where "median (getcol df1 c) = Inr m" using median_numeric by blast
    thus "\<exists>ys. impute_numeric (getcol df1 c) = Inr ys" by (simp add: impute_numeric_def)
  qed
  then obtain df2 where
    s2: "for_each_column impute_numeric (column_list nc) df1 = Inr df2"
    using for_each_column_total [OF keeps_length_impute_numeric settles_impute_numeric w1]
    by blast
  note p2 = for_each_column_props [OF keeps_length_impute_numeric settles_impute_numeric w1 s2]
  hence w2: "wf_table df2" by simp
  obtain df3 where
    s3: "for_each_column impute_categorical (column_list cc) df2 = Inr df3"
    using for_each_column_total
      [OF keeps_length_impute_categorical settles_impute_categorical w2, of "column_list cc"]
    by (auto simp: impute_categorical_def)
  note p3 = for_each_column_props
    [OF keeps_length_impute_categorical settles_impute_categorical w2 s3]
  hence w3: "wf_table df3" by simp
  obtain df4 where
    s4: "for_each_column (coerce_temporal pd) (column_list dc) df3 = Inr df4"
    using for_each_column_total
      [OF keeps_length_coerce_temporal settles_coerce_temporal w3, of "column_list dc" pd]
    by (auto simp: coerce_temporal_def)
  note p4 = for_each_column_props
    [OF keeps_length_coerce_temporal settles_coerce_temporal w3 s4]
  hence w4: "wf_table df4" by simp
  have "\<forall>c \<in> set (column_list cc). c \<in> set (columns df4) \<longrightarrow>
          (\<exists>ys. normalize_categorical (getcol df4 c) = Inr ys)"
  proof (intro ballI impI)
    fix c assume c: "c \<in> set (column_list cc)" "c \<in> set (columns df4)"
    hence cd: "c \<in> set (columns df)" using p2 p3 p4 c1 by simp
    have n: "c \<notin> set (column_list nc)" "c \<notin> set (column_list dc)"
      using assms(2) c(1) unfolding well_typed_def by auto
    have t: "list_all text_or_missing (getcol df c)"
      using assms(2) c(1) cd unfolding well_typed_def by auto
    have "set (getcol df1 c) \<subseteq> set (getcol df c)"
      unfolding df1_def by (rule set_getcol_drop_duplicates)
    hence t1: "list_all text_or_missing (getcol df1 c)" using t by (auto simp: list_all_iff)
    have st2: "stage impute_numeric (column_list nc) c (getcol df1 c) (getcol df2 c)"
      using p2 cd c1 by simp
    have st3: "stage impute_categorical (column_list cc) c (getcol df2 c) (getcol df3 c)"
      using p3 p2 cd c1 by simp
    have st4: "stage (coerce_temporal pd) (column_list dc) c (getcol df3 c) (getcol df4 c)"
      using p4 p3 p2 cd c1 by simp
    have g2: "getcol df2 c = getcol df1 c" using st2 n by (simp add: stage_def)
    have g3: "getcol df3 c = fillna (Str ''Unknown'') (getcol df2 c)"
      using st3 c(1) by (simp add: stage_def impute_categorical_def)
    have g4: "getcol df4 c = getcol df3 c" using st4 n by (simp add: stage_def)
    have "list_all is_str (getcol df4 c)"
      unfolding g4 g3 g2 using t1 by (rule fillna_unknown_text)
    hence "str_accessor_ok (getcol df4 c)" by (rule str_accessor_ok_strs)
    thus "\<exists>ys. normalize_categorical (getcol df4 c) = Inr ys"
      by (simp add: normalize_categorical_eq)
  qed
  then obtain df5 where
    s5: "for_each_column normalize_categorical (column_list cc) df4 = Inr df5"
    using for_each_column_total
      [OF keeps_length_normalize_categorical settles_normalize_categorical w4]
    by blast
  note p5 = for_each_column_props
    [OF keeps_length_normalize_categorical settles_normalize_categorical w4 s5]
  hence w5: "wf_table df5" by simp
  obtain df6 where
    s6: "for_each_column (coerce_numeric pn) (column_list nc) df5 = Inr df6"
    using for_each_column_total
      [OF keeps_length_coerce_numeric settles_coerce_numeric w5, of "column_list nc" pn]
    by (auto simp: coerce_numeric_eq)
  show ?thesis
    unfolding clean_data_def using s2 s3 s4 s5 s6 by (simp add: df1_def)
qed


lemma all_missing_numbers:
  "\<forall>v \<in> set xs. v = Missing \<Longrightarrow> numbers xs = [] \<and> numeric_series xs"
  by (induction xs) (auto simp: numeric_series_def)

lemma dates_str_accessor: "list_all is_date xs \<Longrightarrow> str_accessor_ok xs \<Longrightarrow> xs = []"
proof (cases xs)
  case Nil
  then show ?thesis by simp
next
  case (Cons x xs')
  assume d: "list_all is_date xs" and ok: "str_accessor_ok xs"
  have f: "filter (\<lambda>v. v \<noteq> Missing) xs = xs"
    using d by (auto simp: filter_id_conv list_all_iff is_date_def)
  have "\<not> list_ex is_str xs"
    using d by (auto simp: list_ex_iff list_all_iff is_date_def is_str_def split: cell.splits)
  moreover have "\<not> list_ex is_number xs"
    using d by (auto simp: list_ex_iff list_all_iff is_date_def is_number_def split: cell.splits)
  ultimately show ?thesis using ok unfolding str_accessor_ok_def Let_def f by blast
qed

text \<open>
  C8. For every table with a configured numeric column all of whose cells are missing: the
  median of the column is undefined (\<^verbatim>\<open>NaN\<close>), and every cell of that column in the Cleaner's
  output is 0, whatever other classes the column is in. (\<^verbatim>\<open>"Unknown"\<close> is not a number for
  pandas.) The Cleaner does return an output on every well-typed table.
\<close>

theorem all_missing_numeric_column:
  assumes "wf_table df"
    and "c \<in> set (columns df)" "c \<in> set (column_list nc)"
    and "\<forall>v \<in> set (getcol df c). v = Missing"
    and "pn ''Unknown'' = None"
  shows "median (getcol df c) = Inr Missing \<and>
         (\<forall>df'. clean_data pd pn df nc cc dc = Inr df' \<longrightarrow>
                (\<forall>v \<in> set (getcol df' c). v = Num 0)) \<and>
         (well_typed df (column_list nc) (column_list cc) (column_list dc) \<longrightarrow>
            (\<exists>df'. clean_data pd pn df nc cc dc = Inr df'))"
proof -
  have 1: "median (getcol df c) = Inr Missing"
    using all_missing_numbers [OF assms(4)] by (simp add: median_def)
  have 2: "\<forall>v \<in> set (getcol df' c). v = Num 0"
    if a: "clean_data pd pn df nc cc dc = Inr df'" for df'
  proof -
    define xs where "xs = getcol (drop_duplicates df) c"
    have all: "\<forall>v \<in> set xs. v = Missing"
      using assms(4) set_getcol_drop_duplicates [of df c] by (auto simp: xs_def)
    from clean_data_columns [OF assms(1) a] assms(2) obtain x2 x3 x4 x5 where
      s: "stage impute_numeric (column_list nc) c xs x2"
         "stage impute_categorical (column_list cc) c x2 x3"
         "stage (coerce_temporal pd) (column_list dc) c x3 x4"
         "stage normalize_categorical (column_list cc) c x4 x5"
         "stage (coerce_numeric pn) (column_list nc) c x5 (getcol df' c)"
      unfolding xs_def by blast
    have "median xs = Inr Missing" using all_missing_numbers [OF all] by (simp add: median_def)
    hence x2: "x2 = xs" using s(1) assms(3) by (simp add: stage_def impute_numeric_def)
    have g: "getcol df' c = map (coerce_cell pn) x5"
      using s(5) assms(3) by (simp add: stage_def coerce_numeric_eq)
    have "\<forall>v \<in> set x5. v = Missing \<or> v = Str ''Unknown'' \<or> v = Date 0"
    proof (cases "c \<in> set (column_list cc)")
      case False
      hence x3: "x3 = xs" and x5: "x5 = x4" using s(2,4) x2 by (simp_all add: stage_def)
      show ?thesis
      proof (cases "c \<in> set (column_list dc)")
        case False
        thus ?thesis using s(3) x3 x5 all by (simp add: stage_def)
      next
        case True
        hence "x4 = fillna (Date 0) (to_datetime pd xs)"
          using s(3) x3 by (simp add: stage_def coerce_temporal_def)
        thus ?thesis using all x5 by (auto simp: fillna_def to_datetime_def)
      qed
    next
      case True
      hence x3: "x3 = fillna (Str ''Unknown'') xs"
        using s(2) x2 by (simp add: stage_def impute_categorical_def)
      hence u: "\<forall>v \<in> set x3. v = Str ''Unknown''" using all by (auto simp: fillna_def)
      have n: "str_accessor_ok x4" "x5 = map normalize_cell x4"
        using s(4) True by (auto simp: stage_def normalize_categorical_eq split: if_splits)
      show ?thesis
      proof (cases "c \<in> set (column_list dc)")
        case False
        hence "x4 = x3" using s(3) by (simp add: stage_def)
        thus ?thesis using u n(2) by (auto simp: normalize_cell_def unknown_fixed)
      next
        case True
        hence "coerce_temporal pd x3 = Inr x4" using s(3) by (simp add: stage_def)
        hence "list_all is_date x4" by (rule coerce_temporal_dates)
        hence "x4 = []" using n(1) by (rule dates_str_accessor)
        thus ?thesis using n(2) by simp
      qed
    qed
    thus ?thesis using g assms(5) by (auto simp: coerce_cell_def)
  qed
  have 3: "\<exists>df'. clean_data pd pn df nc cc dc = Inr df'"
    if "well_typed df (column_list nc) (column_list cc) (column_list dc)"
    using assms(1) that by (rule clean_data_total)
  show ?thesis using 1 2 3 by blast
qed

theorem all_missing_numeric_column_witness:
  "\<exists>df'. clean_data (\<lambda>xs v. None) (\<lambda>s. None)
           \<lparr>columns = [''supplier_name'', ''on_time_delivery''],
            rows = [[Str ''acme'', Missing], [Str ''bolt'', Missing]]\<rparr>
           (Some [''on_time_delivery'']) (Some [''supplier_name'']) None = Inr df' \<and>
         getcol df' ''on_time_delivery'' = [Num 0, Num 0]"
proof -
  define df where "df = \<lparr>columns = [''supplier_name'', ''on_time_delivery''],
            rows = [[Str ''acme'', Missing], [Str ''bolt'', Missing]]\<rparr>"
  define pd where "pd = (\<lambda>(xs :: cell list) (v :: cell). None :: int option)"
  define pn where "pn = (\<lambda>s :: string. None :: rat option)"
  have w: "wf_table df" by (simp add: df_def wf_table_def)
  have c: "''on_time_delivery'' \<in> set (columns df)"
    "''on_time_delivery'' \<in> set (column_list (Some [''on_time_delivery'']))"
    by (simp_all add: df_def column_list_def)
  have g: "getcol df ''on_time_delivery'' = [Missing, Missing]"
    "getcol df ''supplier_name'' = [Str ''acme'', Str ''bolt'']"
    by (simp_all add: df_def getcol_def)
  have m: "\<forall>v \<in> set (getcol df ''on_time_delivery''). v = Missing" by (simp add: g)
  have u: "pn ''Unknown'' = None" by (simp add: pn_def)
  have t: "well_typed df (column_list (Some [''on_time_delivery'']))
            (column_list (Some [''supplier_name''])) (column_list None)"
    by (simp add: well_typed_def column_list_def g numeric_series_def text_or_missing_def
          is_str_def)
  note inst = all_missing_numeric_column
    [where df = df and pn = pn and pd = pd and cc = "Some [''supplier_name'']" and dc = None,
     OF w c m u]
  obtain df' where
    d: "clean_data pd pn df (Some [''on_time_delivery'']) (Some [''supplier_name'']) None = Inr df'"
    using inst t by blast
  hence z: "\<forall>v \<in> set (getcol df' ''on_time_delivery''). v = Num 0" using inst by blast
  have "length (rows df') = length (rows (drop_duplicates df))"
    using clean_data_columns [OF w d] by simp
  also have "\<dots> = 2" by (simp add: df_def drop_duplicates_def)
  finally have l: "length (getcol df' ''on_time_delivery'') = 2" by simp
  have "ys = [a, a]" if "length ys = 2" "\<forall>v \<in> set ys. v = a" for ys :: "cell list" and a
    using that by (auto simp: length_Suc_conv numeral_2_eq_2)
  from this [OF l z] have "getcol df' ''on_time_delivery'' = [Num 0, Num 0]" .
  thus ?thesis using d unfolding df_def pd_def pn_def by blast
qed





subsection \<open>Running the Cleaner on its own output\<close>





lemma distinct_keep_first:
  "distinct (keep_first seen rs) \<and> set (keep_first seen rs) \<inter> set seen = {}"
proof (induction rs arbitrary: seen)
  case Nil
  show ?case by simp
next
  case (Cons r rs)
  show ?case
  proof (cases "r \<in> set seen")
    case True
    thus ?thesis using Cons [of seen] by simp
  next
    case False
    thus ?thesis using Cons [of "r # seen"] by auto
  qed
qed










subsection \<open>Enricher\<close>






















subsection \<open>Table objects\<close>

lemma for_each_column_obj_eq:
  "df < length h \<Longrightarrow>
   for_each_column_obj f cols h df =
     (case for_each_column f cols (h ! df) of Inl e \<Rightarrow> Inl e | Inr t \<Rightarrow> Inr (h[df := t]))"
proof (induction cols arbitrary: h)
  case Nil
  then show ?case by simp
next
  case (Cons col cols)
  show ?case
  proof (cases "col \<in> set (columns (h ! df))")
    case False
    thus ?thesis using Cons by simp
  next
    case True
    show ?thesis
    proof (cases "f (getcol (h ! df) col)")
      case (Inl e)
      thus ?thesis using True by (simp add: apply_series_def)
    next
      case (Inr ys)
      define h1 where "h1 = setitem h df col ys"
      have l: "df < length h1" using Cons.prems by (simp add: h1_def setitem_def)
      have v: "h1 ! df = setcol (h ! df) col ys" using Cons.prems by (simp add: h1_def setitem_def)
      have u: "h1[df := t] = h[df := t]" for t by (simp add: h1_def setitem_def)
      show ?thesis using True Inr Cons.IH [OF l]
        by (simp add: apply_series_def h1_def [symmetric] v u cong: sum.case_cong)
    qed
  qed
qed

lemma for_each_column_obj_fresh:
  "for_each_column_obj f cols (h @ [t]) (length h) =
     (case for_each_column f cols t of Inl e \<Rightarrow> Inl e | Inr t' \<Rightarrow> Inr (h @ [t']))"
  using for_each_column_obj_eq [of "length h" "h @ [t]" f cols]
  by (simp cong: sum.case_cong)

lemma clean_data_obj_eq:
  "clean_data_obj pd pn h df nc cc dc =
     (case clean_data pd pn (h ! df) nc cc dc of
        Inl e \<Rightarrow> Inl e
      | Inr t \<Rightarrow> Inr (length h, h @ [t]))"
  by (simp add: clean_data_obj_def clean_data_def copy_def for_each_column_obj_fresh
           split: sum.splits)

lemma handle_outliers_obj_eq:
  "df < length h \<Longrightarrow>
   handle_outliers_obj h df column =
     (case handle_outliers (h ! df) column of Inl e \<Rightarrow> Inl e | Inr t \<Rightarrow> Inr (df, h[df := t]))"
  by (simp add: handle_outliers_obj_def handle_outliers_def setitem_def split: sum.splits)

lemma standardize_countries_obj_eq:
  "df < length h \<Longrightarrow>
   standardize_countries_obj h df column = (df, h[df := standardize_countries (h ! df) column])"
  by (simp add: standardize_countries_obj_def standardize_countries_def setitem_def)

lemma validate_data_obj_eq:
  "df < length h \<Longrightarrow>
   validate_data_obj h df column valid_range =
     (case validate_data (h ! df) column valid_range of
        Inl e \<Rightarrow> Inl e
      | Inr t \<Rightarrow> Inr (df, h[df := t]))"
  by (simp add: validate_data_obj_def validate_data_def split: sum.splits option.splits)

lemma update_second_new: "(h @ [a, b])[Suc (length h) := c] = h @ [a, c]"
  by (simp add: list_update_append)

lemma enrich_obj_eq:
  assumes "l < length h" "w < length h" "n < length h"
  shows "enrich_obj h l w n =
     (case merge_left (h ! l) (h ! w) ''origin_country'' ''country'' of
        Inl e \<Rightarrow> Inl e
      | Inr m1 \<Rightarrow>
          (case merge_left m1 (h ! n) ''origin_country'' ''country'' of
             Inl e \<Rightarrow> Inl e
           | Inr m2 \<Rightarrow>
               Inr (Suc (length h),
                    h @ [m1, drop_columns m2 [''country_x'', ''country_y'']])))"
  using assms
  by (simp add: enrich_obj_def merge_obj_def nth_append update_second_new split: sum.splits)

text \<open>
  C2, as the code has it. The table that a component call produces is a function of the
  values of its input tables and of its configuration only: no state is carried between
  calls. The Cleaner works on a copy, so it returns a new table object and leaves every
  object alive before the call, the one passed in among them, as it was; the merges of the
  Enricher make new objects too. OutlierCapper, CategoryMapper and RangeValidator write
  their result into the table object passed in and return that same object.
\<close>

theorem component_calls:
  assumes "df < length h" "w < length h" "n < length h"
  shows "clean_data_obj pd pn h df nc cc dc =
           (case clean_data pd pn (h ! df) nc cc dc of
              Inl e \<Rightarrow> Inl e
            | Inr t \<Rightarrow> Inr (length h, h @ [t])) \<and>
         (\<forall>r h'. clean_data_obj pd pn h df nc cc dc = Inr (r, h') \<longrightarrow>
            r \<noteq> df \<and> (\<forall>i < length h. h' ! i = h ! i)) \<and>
         handle_outliers_obj h df column =
           (case handle_outliers (h ! df) column of
              Inl e \<Rightarrow> Inl e
            | Inr t \<Rightarrow> Inr (df, h[df := t])) \<and>
         standardize_countries_obj h df column =
           (df, h[df := standardize_countries (h ! df) column]) \<and>
         validate_data_obj h df column valid_range =
           (case validate_data (h ! df) column valid_range of
              Inl e \<Rightarrow> Inl e
            | Inr t \<Rightarrow> Inr (df, h[df := t])) \<and>
         (\<forall>r h'. handle_outliers_obj h df column = Inr (r, h') \<or>
                 standardize_countries_obj h df column = (r, h') \<or>
                 validate_data_obj h df column valid_range = Inr (r, h') \<longrightarrow>
            r = df \<and> length h' = length h \<and> (\<forall>i < length h. i \<noteq> df \<longrightarrow> h' ! i = h ! i)) \<and>
         (\<forall>e. enrich_obj h df w n = Inl e \<longleftrightarrow> enrich (h ! df) (h ! w) (h ! n) = Inl e) \<and>
         (\<forall>r h'. enrich_obj h df w n = Inr (r, h') \<longrightarrow>
            r = Suc (length h) \<and> length h' = Suc (Suc (length h)) \<and>
            (\<forall>i < length h. h' ! i = h ! i) \<and>
            enrich (h ! df) (h ! w) (h ! n) = Inr (h' ! r))"
proof -
  have 1: "clean_data_obj pd pn h df nc cc dc =
           (case clean_data pd pn (h ! df) nc cc dc of
              Inl e \<Rightarrow> Inl e
            | Inr t \<Rightarrow> Inr (length h, h @ [t]))"
    by (rule clean_data_obj_eq)
  have c1: "r \<noteq> df \<and> (\<forall>i < length h. h' ! i = h ! i)"
    if "clean_data_obj pd pn h df nc cc dc = Inr (r, h')" for r h'
    using that assms(1) unfolding 1 by (auto simp: nth_append split: sum.splits)
  have 2: "handle_outliers_obj h df column =
           (case handle_outliers (h ! df) column of
              Inl e \<Rightarrow> Inl e
            | Inr t \<Rightarrow> Inr (df, h[df := t]))"
    using assms(1) by (rule handle_outliers_obj_eq)
  have 3: "standardize_countries_obj h df column =
           (df, h[df := standardize_countries (h ! df) column])"
    using assms(1) by (rule standardize_countries_obj_eq)
  have 4: "validate_data_obj h df column valid_range =
           (case validate_data (h ! df) column valid_range of
              Inl e \<Rightarrow> Inl e
            | Inr t \<Rightarrow> Inr (df, h[df := t]))"
    using assms(1) by (rule validate_data_obj_eq)
  have c4: "r = df \<and> length h' = length h \<and> (\<forall>i < length h. i \<noteq> df \<longrightarrow> h' ! i = h ! i)"
    if "handle_outliers_obj h df column = Inr (r, h') \<or>
        standardize_countries_obj h df column = (r, h') \<or>
        validate_data_obj h df column valid_range = Inr (r, h')" for r h'
    using that unfolding 2 3 4 by (auto split: sum.splits)
  have 5: "enrich_obj h df w n = Inl e \<longleftrightarrow> enrich (h ! df) (h ! w) (h ! n) = Inl e" for e
    unfolding enrich_obj_eq [OF assms] enrich_def by (auto split: sum.splits)
  have 6: "r = Suc (length h) \<and> length h' = Suc (Suc (length h)) \<and>
            (\<forall>i < length h. h' ! i = h ! i) \<and>
            enrich (h ! df) (h ! w) (h ! n) = Inr (h' ! r)"
    if a: "enrich_obj h df w n = Inr (r, h')" for r h'
  proof -
    from a obtain m1 m2 where
      m: "merge_left (h ! df) (h ! w) ''origin_country'' ''country'' = Inr m1"
         "merge_left m1 (h ! n) ''origin_country'' ''country'' = Inr m2"
      and r: "r = Suc (length h)"
      and h': "h' = h @ [m1, drop_columns m2 [''country_x'', ''country_y'']]"
      unfolding enrich_obj_eq [OF assms] by (auto split: sum.splits)
    have "h' ! r = drop_columns m2 [''country_x'', ''country_y'']"
      by (simp add: r h' nth_append)
    hence "enrich (h ! df) (h ! w) (h ! n) = Inr (h' ! r)" using m by (simp add: enrich_def)
    thus ?thesis using r h' by (simp add: nth_append)
  qed
  show ?thesis using 1 c1 2 3 4 c4 5 6 by blast
qed

text \<open>
  The claim as the spec states it fails: after RangeValidator the table object that was
  passed in holds 0 where it held 400.
\<close>

theorem in_place_counterexample:
  "validate_data_obj
     [\<lparr>columns = [''origin_country'', ''transit_time_days''],
       rows = [[Str ''Chile'', Num 400], [Str ''Peru'', Num 7]]\<rparr>]
     0 ''transit_time_days'' (Some (0, 365)) =
   Inr (0, [\<lparr>columns = [''origin_country'', ''transit_time_days''],
             rows = [[Str ''Chile'', Num 0], [Str ''Peru'', Num 7]]\<rparr>])"
  by code_simp

lemma example_validate:
  "validate_data
     \<lparr>columns = [''origin_country'', ''transit_time_days''],
       rows = [[Str ''Chile'', Num 400], [Str ''Peru'', Num 7]]\<rparr>
     ''transit_time_days'' (Some (0, 365)) =
   Inr \<lparr>columns = [''origin_country'', ''transit_time_days''],
        rows = [[Str ''Chile'', Num 0], [Str ''Peru'', Num 7]]\<rparr>"
  by code_simp

lemma example_clean:
  "clean_data (\<lambda>xs v. None) (\<lambda>s. None)
     \<lparr>columns = [''origin_country'', ''transit_time_days''],
       rows = [[Str ''Chile'', Num 400], [Str ''Peru'', Num 7]]\<rparr>
     (Some [''transit_time_days'']) (Some [''origin_country'']) None =
   Inr \<lparr>columns = [''origin_country'', ''transit_time_days''],
        rows = [[Str ''Chile'', Num 400], [Str ''Peru'', Num 7]]\<rparr>"
  by code_simp

theorem component_calls_witness:
  "clean_data_obj (\<lambda>xs v. None) (\<lambda>s. None)
     [\<lparr>columns = [''origin_country'', ''transit_time_days''],
       rows = [[Str ''Chile'', Num 400], [Str ''Peru'', Num 7]]\<rparr>]
     0 (Some [''transit_time_days'']) (Some [''origin_country'']) None =
   Inr (1, [\<lparr>columns = [''origin_country'', ''transit_time_days''],
             rows = [[Str ''Chile'', Num 400], [Str ''Peru'', Num 7]]\<rparr>,
            \<lparr>columns = [''origin_country'', ''transit_time_days''],
             rows = [[Str ''Chile'', Num 400], [Str ''Peru'', Num 7]]\<rparr>]) \<and>
   validate_data_obj
     [\<lparr>columns = [''origin_country'', ''transit_time_days''],
       rows = [[Str ''Chile'', Num 400], [Str ''Peru'', Num 7]]\<rparr>]
     0 ''transit_time_days'' (Some (0, 365)) =
   Inr (0, [\<lparr>columns = [''origin_country'', ''transit_time_days''],
             rows = [[Str ''Chile'', Num 0], [Str ''Peru'', Num 7]]\<rparr>])"
proof -
  define t where "t = \<lparr>columns = [''origin_country'', ''transit_time_days''],
       rows = [[Str ''Chile'', Num 400], [Str ''Peru'', Num 7]]\<rparr>"
  have l: "0 < length [t]" by simp
  note inst = component_calls [OF l l l, of "\<lambda>xs v. None" "\<lambda>s. None"
      "Some [''transit_time_days'']" "Some [''origin_country'']" None
      "''transit_time_days''" "Some (0, 365)"]
  have a: "clean_data_obj (\<lambda>xs v. None) (\<lambda>s. None) [t] 0
      (Some [''transit_time_days'']) (Some [''origin_country'']) None = Inr (1, [t, t])"
    using inst example_clean by (simp add: t_def)
  have b: "validate_data_obj [t] 0 ''transit_time_days'' (Some (0, 365)) =
      Inr (0, [\<lparr>columns = [''origin_country'', ''transit_time_days''],
             rows = [[Str ''Chile'', Num 0], [Str ''Peru'', Num 7]]\<rparr>])"
    using inst example_validate by (simp add: t_def)
  show ?thesis using a b by (simp add: t_def)
qed

subsection \<open>A numeric column that holds a string\<close>

text \<open>
  The final coercion is not reached when a configured numeric column holds a string:
  \<^verbatim>\<open>median()\<close> of line 32 raises first.
\<close>

lemma impute_numeric_raises: "\<not> numeric_series xs \<Longrightarrow> impute_numeric xs = Inl TypeError"
  by (simp add: impute_numeric_def median_def)

lemma impute_numeric_error: "impute_numeric xs = Inl e \<Longrightarrow> e = TypeError"
  by (auto simp: impute_numeric_def median_def split: if_splits sum.splits)

lemma for_each_impute_numeric_raises:
  "wf_table df \<Longrightarrow> c \<in> set cols \<Longrightarrow> c \<in> set (columns df) \<Longrightarrow>
   \<not> numeric_series (getcol df c) \<Longrightarrow>
   for_each_column impute_numeric cols df = Inl TypeError"
proof (induction cols arbitrary: df)
  case Nil
  then show ?case by simp
next
  case (Cons col cols)
  show ?case
  proof (cases "col \<in> set (columns df)")
    case False
    hence "col \<noteq> c" using Cons.prems(3) by auto
    hence "c \<in> set cols" using Cons.prems(2) by simp
    from Cons.IH [OF Cons.prems(1) this Cons.prems(3,4)] False show ?thesis by simp
  next
    case True
    show ?thesis
    proof (cases "apply_series impute_numeric df col")
      case (Inl e)
      hence "impute_numeric (getcol df col) = Inl e"
        by (auto simp: apply_series_def split: sum.splits)
      hence "e = TypeError" by (rule impute_numeric_error)
      thus ?thesis using True Inl by simp
    next
      case (Inr df1)
      note p = apply_series_props [OF keeps_length_impute_numeric Cons.prems(1) True Inr]
      have ne: "col \<noteq> c"
      proof
        assume "col = c"
        hence "impute_numeric (getcol df c) = Inr (getcol df1 c)" using p(4) by simp
        thus False using impute_numeric_raises [OF Cons.prems(4)] by simp
      qed
      hence c: "c \<in> set cols" using Cons.prems(2) by simp
      have "\<not> numeric_series (getcol df1 c)" using p(5) [of c] ne Cons.prems(4) by simp
      from Cons.IH [OF p(2) c _ this] p(1) Cons.prems(3) True Inr show ?thesis by simp
    qed
  qed
qed

lemma clean_data_raises_on_text:
  assumes "wf_table df" "c \<in> set (column_list nc)" "c \<in> set (columns df)"
    and "\<not> numeric_series (getcol (drop_duplicates df) c)"
  shows "clean_data pd pn df nc cc dc = Inl TypeError"
proof -
  have "for_each_column impute_numeric (column_list nc) (drop_duplicates df) = Inl TypeError"
    using assms by (intro for_each_impute_numeric_raises) (simp_all add: wf_drop_duplicates)
  thus ?thesis by (simp add: clean_data_def)
qed

end
